theory Spec2Isabelle
  imports Complex_Main "HOL-Library.Word"
begin

section \<open>Volume calculation results and their merge operator\<close>

text \<open>
  A shallow embedding of \<^verbatim>\<open>include/openmc/volume_calc.h\<close>: the struct
  \<^verbatim>\<open>VolumeCalculation::Result\<close> and its \<^verbatim>\<open>operator+=\<close>, which folds the
  result of one batch of samples into another.
\<close>

subsection \<open>Numbers\<close>

text \<open>
  \<^verbatim>\<open>size_t\<close> is an unsigned 64-bit integer: \<open>+\<close> wraps around modulo \<open>2 ^ 64\<close>.
  \<^verbatim>\<open>int\<close> is a 32-bit integer; the nuclide indices are stored, never computed with.
\<close>

type_synonym size_t = "64 word"
type_synonym c_int = "32 word"

text \<open>
  A \<^verbatim>\<open>double\<close> is an IEEE 754 binary64 value: a number or one of the three special
  values. The numbers are carried as reals, and every operation rounds its exact result
  to binary64 with \<open>round64\<close>, so what an operation returns is a binary64 number. The
  sign of a zero is not kept: it shows only in a division by a zero, and every divisor
  here is a converted unsigned count.
\<close>

datatype double = Num real | PInf | NInf | NaN

text \<open>The infinity with the sign of \<open>x\<close>; \<open>NaN\<close> when \<open>x\<close> is zero.\<close>

definition inf_of_sign :: "real \<Rightarrow> double" where
  "inf_of_sign x = (if x = 0 then NaN else if 0 < x then PInf else NInf)"

text \<open>
  Rounding to nearest, ties to even. A binary64 number is an integer of magnitude below
  \<open>2 ^ 53\<close> times a power of two no smaller than \<open>2 ^ - 1074\<close>. For \<open>x\<close> with
  \<open>2 ^ e \<le> \<bar>x\<bar> < 2 ^ (e + 1)\<close> its neighbours are the multiples of \<open>2 ^ (e - 52)\<close>,
  and below \<open>2 ^ - 1022\<close>, among the subnormal numbers, the multiples of \<open>2 ^ - 1074\<close>.
  A result that rounds to \<open>2 ^ 1024\<close> or beyond is the infinity of its sign.
\<close>

definition pow2 :: "int \<Rightarrow> real" where
  "pow2 e = 2 powr of_int e"

definition huge :: real where
  "huge = pow2 1024"

definition ulp_exponent :: "real \<Rightarrow> int" where
  "ulp_exponent x = max \<lfloor>log 2 \<bar>x\<bar>\<rfloor> (- 1022) - 52"

definition round_even :: "real \<Rightarrow> int" where
  "round_even q =
     (let f = \<lfloor>q\<rfloor>; r = q - of_int f
      in if r < 1 / 2 then f else if 1 / 2 < r then f + 1 else if even f then f else f + 1)"

definition round64 :: "real \<Rightarrow> double" where
  "round64 x =
     (if x = 0 then Num 0
      else let u = pow2 (ulp_exponent x);
               y = of_int (round_even (x / u)) * u
           in if huge \<le> \<bar>y\<bar> then inf_of_sign x else Num y)"

text \<open>A real is a binary64 number when rounding leaves it as it is.\<close>

definition representable :: "real \<Rightarrow> bool" where
  "representable x \<longleftrightarrow> round64 x = Num x"

fun dadd :: "double \<Rightarrow> double \<Rightarrow> double" where
  "dadd (Num x) (Num y) = round64 (x + y)"
| "dadd NaN _ = NaN"
| "dadd _ NaN = NaN"
| "dadd PInf NInf = NaN"
| "dadd NInf PInf = NaN"
| "dadd PInf _ = PInf"
| "dadd _ PInf = PInf"
| "dadd NInf _ = NInf"
| "dadd _ NInf = NInf"

fun dmul :: "double \<Rightarrow> double \<Rightarrow> double" where
  "dmul (Num x) (Num y) = round64 (x * y)"
| "dmul NaN _ = NaN"
| "dmul _ NaN = NaN"
| "dmul (Num x) PInf = inf_of_sign x"
| "dmul (Num x) NInf = inf_of_sign (- x)"
| "dmul PInf (Num y) = inf_of_sign y"
| "dmul NInf (Num y) = inf_of_sign (- y)"
| "dmul PInf PInf = PInf"
| "dmul NInf NInf = PInf"
| "dmul PInf NInf = NInf"
| "dmul NInf PInf = NInf"

text \<open>
  Division. Every divisor of the operator is a converted \<^verbatim>\<open>size_t\<close>, so a zero divisor
  is the positive zero: a finite nonzero dividend gives the infinity of its sign, and
  zero by zero gives \<open>NaN\<close>. No division traps.
\<close>

fun ddiv :: "double \<Rightarrow> double \<Rightarrow> double" where
  "ddiv (Num x) (Num y) = (if y = 0 then inf_of_sign x else round64 (x / y))"
| "ddiv NaN _ = NaN"
| "ddiv _ NaN = NaN"
| "ddiv (Num x) PInf = Num 0"
| "ddiv (Num x) NInf = Num 0"
| "ddiv PInf (Num y) = (if 0 \<le> y then PInf else NInf)"
| "ddiv NInf (Num y) = (if 0 \<le> y then NInf else PInf)"
| "ddiv PInf PInf = NaN"
| "ddiv PInf NInf = NaN"
| "ddiv NInf PInf = NaN"
| "ddiv NInf NInf = NaN"

text \<open>\<^verbatim>\<open>std::sqrt\<close>: \<open>NaN\<close> on a negative argument.\<close>

fun dsqrt :: "double \<Rightarrow> double" where
  "dsqrt (Num x) = (if x < 0 then NaN else round64 (sqrt x))"
| "dsqrt PInf = PInf"
| "dsqrt NInf = NaN"
| "dsqrt NaN = NaN"

text \<open>
  The implicit conversion of a \<^verbatim>\<open>size_t\<close> operand in \<^verbatim>\<open>num_samples * volume[0]\<close>;
  it rounds a count of more than 53 bits.
\<close>

definition of_size_t :: "size_t \<Rightarrow> double" where
  "of_size_t n = round64 (real (unat n))"

text \<open>Subtraction is the addition of the negated subtrahend; negation is exact.\<close>

fun dneg :: "double \<Rightarrow> double" where
  "dneg (Num x) = Num (- x)"
| "dneg PInf = NInf"
| "dneg NInf = PInf"
| "dneg NaN = NaN"

definition dsub :: "double \<Rightarrow> double \<Rightarrow> double" where
  "dsub x y = dadd x (dneg y)"

subsection \<open>The struct\<close>

text \<open>
  \<^verbatim>\<open>std::array<double, 2> volume\<close> is a pair (mean, standard deviation), and
  \<^verbatim>\<open>volume.size()\<close> is the constant 2. The three vectors are lists.
\<close>

record Result =
  volume :: "double \<times> double"
  nuclides :: "c_int list"
  atoms :: "double list"
  uncertainty :: "double list"
  num_samples :: size_t

definition volume_size :: nat where
  "volume_size = 2"

subsection \<open>\<^verbatim>\<open>Result::operator+=\<close>\<close>

text \<open>
  A failed \<^verbatim>\<open>Expects\<close> terminates the program; \<^verbatim>\<open>operator[]\<close> of a vector past
  its end is undefined behaviour. Both are outcomes of the model.
\<close>

datatype error = ExpectsFailed | OutOfBounds

text \<open>
  The body of the first loop. It does not mention the loop index: both statements
  address \<^verbatim>\<open>volume[0]\<close> and \<^verbatim>\<open>volume[1]\<close>. \<^verbatim>\<open>num_samples\<close> is still the
  left operand's own count; it is assigned after both loops.
\<close>

definition volume_body :: "size_t \<Rightarrow> Result \<Rightarrow> Result \<Rightarrow> Result" where
  "volume_body total_samples other this =
     (let v0 = ddiv (dadd (dmul (of_size_t (num_samples this)) (fst (volume this)))
                          (dmul (of_size_t (num_samples other)) (fst (volume other))))
                    (of_size_t total_samples);
          this = this\<lparr>volume := (v0, snd (volume this))\<rparr>;
          v1 = ddiv (dsqrt (dadd (dmul (dmul (of_size_t (num_samples this)) (snd (volume this)))
                                       (snd (volume this)))
                                 (dmul (dmul (of_size_t (num_samples other)) (snd (volume other)))
                                       (snd (volume other)))))
                    (of_size_t total_samples)
      in this\<lparr>volume := (fst (volume this), v1)\<rparr>)"

text \<open>\<^verbatim>\<open>for (int i = 0; i < volume.size(); i++)\<close>\<close>

function volume_loop :: "nat \<Rightarrow> size_t \<Rightarrow> Result \<Rightarrow> Result \<Rightarrow> Result" where
  "volume_loop i total_samples other this =
     (if i < volume_size
      then volume_loop (Suc i) total_samples other (volume_body total_samples other this)
      else this)"
  by pat_completeness auto
termination
  by (relation "measure (\<lambda>(i, total_samples, other, this). volume_size - i)") auto

declare volume_loop.simps [simp del]

text \<open>
  The body of the second loop at index \<open>i < atoms.size()\<close>. It reads
  \<^verbatim>\<open>other.atoms[i]\<close>, \<^verbatim>\<open>uncertainty[i]\<close> and \<^verbatim>\<open>other.uncertainty[i]\<close> and
  writes \<^verbatim>\<open>uncertainty[i]\<close>, none of which is checked against its vector's size.
\<close>

definition atoms_body :: "nat \<Rightarrow> size_t \<Rightarrow> Result \<Rightarrow> Result \<Rightarrow> error + Result" where
  "atoms_body i total_samples other this =
     (if i < length (atoms other) \<and> i < length (uncertainty this)
         \<and> i < length (uncertainty other)
      then
        let a = ddiv (dadd (dmul (of_size_t (num_samples this)) (atoms this ! i))
                           (dmul (of_size_t (num_samples other)) (atoms other ! i)))
                     (of_size_t total_samples);
            u = ddiv (dsqrt (dadd (dmul (dmul (of_size_t (num_samples this)) (uncertainty this ! i))
                                        (uncertainty this ! i))
                                  (dmul (dmul (of_size_t (num_samples other)) (uncertainty other ! i))
                                        (uncertainty other ! i))))
                     (of_size_t total_samples)
        in Inr (this\<lparr>atoms := (atoms this)[i := a], uncertainty := (uncertainty this)[i := u]\<rparr>)
      else Inl OutOfBounds)"

lemma atoms_body_length:
  "atoms_body i total_samples other this = Inr this' \<Longrightarrow> length (atoms this') = length (atoms this)"
  by (auto simp: atoms_body_def Let_def split: if_splits)

text \<open>\<^verbatim>\<open>for (int i = 0; i < atoms.size(); i++)\<close>\<close>

function atoms_loop :: "nat \<Rightarrow> size_t \<Rightarrow> Result \<Rightarrow> Result \<Rightarrow> error + Result" where
  "atoms_loop i total_samples other this =
     (if i < length (atoms this)
      then (case atoms_body i total_samples other this of
              Inl e \<Rightarrow> Inl e
            | Inr this' \<Rightarrow> atoms_loop (Suc i) total_samples other this')
      else Inr this)"
  by pat_completeness auto
termination
  by (relation "measure (\<lambda>(i, total_samples, other, this). length (atoms this) - i)")
     (auto dest: atoms_body_length)

declare atoms_loop.simps [simp del]

text \<open>
  The operator, on two operands that are distinct objects: \<open>this\<close> is the left
  operand's value before the call, the result its value after it. The second
  \<^verbatim>\<open>Expects\<close> compares \<^verbatim>\<open>atoms.size()\<close> with itself, as the source does.
  The loop counters are \<^verbatim>\<open>int\<close>s compared with a \<^verbatim>\<open>size_t\<close>; they are natural
  numbers here, which is the same for vectors of fewer than \<open>2 ^ 31\<close> entries.
\<close>

definition operator_plus_eq :: "Result \<Rightarrow> Result \<Rightarrow> error + Result" where
  "operator_plus_eq this other =
     (if volume_size \<noteq> volume_size then Inl ExpectsFailed
      else if length (atoms this) \<noteq> length (atoms this) then Inl ExpectsFailed
      else
        let total_samples = num_samples this + num_samples other;
            this = volume_loop 0 total_samples other this
        in case atoms_loop 0 total_samples other this of
             Inl e \<Rightarrow> Inl e
           | Inr this \<Rightarrow> Inr (this\<lparr>num_samples := total_samples\<rparr>))"

subsection \<open>The operator with its divisors observed\<close>

text \<open>
  No division of the operator traps, so a zero divisor shows only in the numbers that
  come out. To speak of the divisors themselves the operator is written a second time,
  statement for statement, with each of its four divisions stopping on a divisor equal
  to zero; an outcome of the operator proper is carried along as it is.
\<close>

datatype checked_error = ZeroDivisor | Unchecked error

definition checked_div :: "double \<Rightarrow> double \<Rightarrow> checked_error + double" where
  "checked_div x y = (if y = Num 0 then Inl ZeroDivisor else Inr (ddiv x y))"

definition volume_body_checked :: "size_t \<Rightarrow> Result \<Rightarrow> Result \<Rightarrow> checked_error + Result" where
  "volume_body_checked total_samples other this =
     (case checked_div (dadd (dmul (of_size_t (num_samples this)) (fst (volume this)))
                             (dmul (of_size_t (num_samples other)) (fst (volume other))))
                       (of_size_t total_samples) of
        Inl e \<Rightarrow> Inl e
      | Inr v0 \<Rightarrow>
          let this = this\<lparr>volume := (v0, snd (volume this))\<rparr>
          in case checked_div
                    (dsqrt (dadd (dmul (dmul (of_size_t (num_samples this)) (snd (volume this)))
                                       (snd (volume this)))
                                 (dmul (dmul (of_size_t (num_samples other)) (snd (volume other)))
                                       (snd (volume other)))))
                    (of_size_t total_samples) of
               Inl e \<Rightarrow> Inl e
             | Inr v1 \<Rightarrow> Inr (this\<lparr>volume := (fst (volume this), v1)\<rparr>))"

function volume_loop_checked ::
  "nat \<Rightarrow> size_t \<Rightarrow> Result \<Rightarrow> Result \<Rightarrow> checked_error + Result" where
  "volume_loop_checked i total_samples other this =
     (if i < volume_size
      then (case volume_body_checked total_samples other this of
              Inl e \<Rightarrow> Inl e
            | Inr this' \<Rightarrow> volume_loop_checked (Suc i) total_samples other this')
      else Inr this)"
  by pat_completeness auto
termination
  by (relation "measure (\<lambda>(i, total_samples, other, this). volume_size - i)") auto

declare volume_loop_checked.simps [simp del]

definition atoms_body_checked ::
  "nat \<Rightarrow> size_t \<Rightarrow> Result \<Rightarrow> Result \<Rightarrow> checked_error + Result" where
  "atoms_body_checked i total_samples other this =
     (if i < length (atoms other) \<and> i < length (uncertainty this)
         \<and> i < length (uncertainty other)
      then
        case checked_div (dadd (dmul (of_size_t (num_samples this)) (atoms this ! i))
                               (dmul (of_size_t (num_samples other)) (atoms other ! i)))
                         (of_size_t total_samples) of
          Inl e \<Rightarrow> Inl e
        | Inr a \<Rightarrow>
            (case checked_div
                    (dsqrt (dadd (dmul (dmul (of_size_t (num_samples this)) (uncertainty this ! i))
                                       (uncertainty this ! i))
                                 (dmul (dmul (of_size_t (num_samples other)) (uncertainty other ! i))
                                       (uncertainty other ! i))))
                    (of_size_t total_samples) of
               Inl e \<Rightarrow> Inl e
             | Inr u \<Rightarrow>
                 Inr (this\<lparr>atoms := (atoms this)[i := a],
                            uncertainty := (uncertainty this)[i := u]\<rparr>))
      else Inl (Unchecked OutOfBounds))"

lemma atoms_body_checked_length:
  "atoms_body_checked i total_samples other this = Inr this' \<Longrightarrow>
     length (atoms this') = length (atoms this)"
  by (auto simp: atoms_body_checked_def split: if_splits sum.splits)

function atoms_loop_checked ::
  "nat \<Rightarrow> size_t \<Rightarrow> Result \<Rightarrow> Result \<Rightarrow> checked_error + Result" where
  "atoms_loop_checked i total_samples other this =
     (if i < length (atoms this)
      then (case atoms_body_checked i total_samples other this of
              Inl e \<Rightarrow> Inl e
            | Inr this' \<Rightarrow> atoms_loop_checked (Suc i) total_samples other this')
      else Inr this)"
  by pat_completeness auto
termination
  by (relation "measure (\<lambda>(i, total_samples, other, this). length (atoms this) - i)")
     (auto dest: atoms_body_checked_length)

declare atoms_loop_checked.simps [simp del]

definition operator_plus_eq_checked :: "Result \<Rightarrow> Result \<Rightarrow> checked_error + Result" where
  "operator_plus_eq_checked this other =
     (if volume_size \<noteq> volume_size then Inl (Unchecked ExpectsFailed)
      else if length (atoms this) \<noteq> length (atoms this) then Inl (Unchecked ExpectsFailed)
      else
        let total_samples = num_samples this + num_samples other
        in case volume_loop_checked 0 total_samples other this of
             Inl e \<Rightarrow> Inl e
           | Inr this \<Rightarrow>
               (case atoms_loop_checked 0 total_samples other this of
                  Inl e \<Rightarrow> Inl e
                | Inr this \<Rightarrow> Inr (this\<lparr>num_samples := total_samples\<rparr>)))"

subsection \<open>The operator on objects in memory\<close>

text \<open>
  \<^verbatim>\<open>operator+=\<close> is a member function taking \<^verbatim>\<open>const Result& other\<close>: \<open>this\<close>
  and \<open>other\<close> are addresses of objects, and nothing keeps them apart. Here the memory
  is a function from addresses to Results; every read goes through the memory as it is
  at that statement, every write updates the object at \<open>this\<close>.
\<close>

type_synonym addr = nat
type_synonym heap = "addr \<Rightarrow> Result"

definition volume_body_at :: "size_t \<Rightarrow> addr \<Rightarrow> addr \<Rightarrow> heap \<Rightarrow> heap" where
  "volume_body_at total_samples other this h =
     (let v0 = ddiv (dadd (dmul (of_size_t (num_samples (h this))) (fst (volume (h this))))
                          (dmul (of_size_t (num_samples (h other))) (fst (volume (h other)))))
                    (of_size_t total_samples);
          h = h(this := (h this)\<lparr>volume := (v0, snd (volume (h this)))\<rparr>);
          v1 = ddiv (dsqrt (dadd (dmul (dmul (of_size_t (num_samples (h this)))
                                             (snd (volume (h this))))
                                       (snd (volume (h this))))
                                 (dmul (dmul (of_size_t (num_samples (h other)))
                                             (snd (volume (h other))))
                                       (snd (volume (h other))))))
                    (of_size_t total_samples)
      in h(this := (h this)\<lparr>volume := (fst (volume (h this)), v1)\<rparr>))"

function volume_loop_at :: "nat \<Rightarrow> size_t \<Rightarrow> addr \<Rightarrow> addr \<Rightarrow> heap \<Rightarrow> heap" where
  "volume_loop_at i total_samples other this h =
     (if i < volume_size
      then volume_loop_at (Suc i) total_samples other this
             (volume_body_at total_samples other this h)
      else h)"
  by pat_completeness auto
termination
  by (relation "measure (\<lambda>(i, total_samples, other, this, h). volume_size - i)") auto

declare volume_loop_at.simps [simp del]

definition atoms_body_at :: "nat \<Rightarrow> size_t \<Rightarrow> addr \<Rightarrow> addr \<Rightarrow> heap \<Rightarrow> error + heap" where
  "atoms_body_at i total_samples other this h =
     (if i < length (atoms (h other)) then
        let a = ddiv (dadd (dmul (of_size_t (num_samples (h this))) (atoms (h this) ! i))
                           (dmul (of_size_t (num_samples (h other))) (atoms (h other) ! i)))
                     (of_size_t total_samples);
            h = h(this := (h this)\<lparr>atoms := (atoms (h this))[i := a]\<rparr>)
        in if i < length (uncertainty (h this)) \<and> i < length (uncertainty (h other)) then
             let u = ddiv (dsqrt (dadd (dmul (dmul (of_size_t (num_samples (h this)))
                                                   (uncertainty (h this) ! i))
                                             (uncertainty (h this) ! i))
                                       (dmul (dmul (of_size_t (num_samples (h other)))
                                                   (uncertainty (h other) ! i))
                                             (uncertainty (h other) ! i))))
                          (of_size_t total_samples)
             in Inr (h(this := (h this)\<lparr>uncertainty := (uncertainty (h this))[i := u]\<rparr>))
           else Inl OutOfBounds
      else Inl OutOfBounds)"

lemma atoms_body_at_frame:
  "atoms_body_at i t other this h = Inr h' \<Longrightarrow>
     (\<forall>p. p \<noteq> this \<longrightarrow> h' p = h p) \<and>
     volume (h' this) = volume (h this) \<and> nuclides (h' this) = nuclides (h this) \<and>
     num_samples (h' this) = num_samples (h this) \<and>
     length (atoms (h' this)) = length (atoms (h this)) \<and>
     length (uncertainty (h' this)) = length (uncertainty (h this))"
  by (auto simp: atoms_body_at_def Let_def split: if_splits)

function atoms_loop_at :: "nat \<Rightarrow> size_t \<Rightarrow> addr \<Rightarrow> addr \<Rightarrow> heap \<Rightarrow> error + heap" where
  "atoms_loop_at i total_samples other this h =
     (if i < length (atoms (h this))
      then (case atoms_body_at i total_samples other this h of
              Inl e \<Rightarrow> Inl e
            | Inr h' \<Rightarrow> atoms_loop_at (Suc i) total_samples other this h')
      else Inr h)"
  by pat_completeness auto
termination
  by (relation "measure (\<lambda>(i, total_samples, other, this, h). length (atoms (h this)) - i)")
     (auto dest: atoms_body_at_frame)

declare atoms_loop_at.simps [simp del]

definition operator_plus_eq_at :: "addr \<Rightarrow> addr \<Rightarrow> heap \<Rightarrow> error + heap" where
  "operator_plus_eq_at this other h =
     (if volume_size \<noteq> volume_size then Inl ExpectsFailed
      else if length (atoms (h this)) \<noteq> length (atoms (h this)) then Inl ExpectsFailed
      else
        let total_samples = num_samples (h this) + num_samples (h other);
            h = volume_loop_at 0 total_samples other this h
        in case atoms_loop_at 0 total_samples other this h of
             Inl e \<Rightarrow> Inl e
           | Inr h \<Rightarrow> Inr (h(this := (h this)\<lparr>num_samples := total_samples\<rparr>)))"

subsection \<open>What the specification asks of a merge\<close>

text \<open>
  The merged mean and standard deviation in the specification's words:
  \<open>(n_A * mean_A + n_B * mean_B) / (n_A + n_B)\<close> and
  \<open>sqrt (n_A * sd_A\<^sup>2 + n_B * sd_B\<^sup>2) / (n_A + n_B)\<close>, the sample counts being
  \<^verbatim>\<open>size_t\<close> values and their sum the \<^verbatim>\<open>size_t\<close> sum.
\<close>

definition spec_mean :: "size_t \<Rightarrow> double \<Rightarrow> size_t \<Rightarrow> double \<Rightarrow> double" where
  "spec_mean n_A mean_A n_B mean_B =
     ddiv (dadd (dmul (of_size_t n_A) mean_A) (dmul (of_size_t n_B) mean_B))
          (of_size_t (n_A + n_B))"

definition spec_sd :: "size_t \<Rightarrow> double \<Rightarrow> size_t \<Rightarrow> double \<Rightarrow> double" where
  "spec_sd n_A sd_A n_B sd_B =
     ddiv (dsqrt (dadd (dmul (of_size_t n_A) (dmul sd_A sd_A))
                       (dmul (of_size_t n_B) (dmul sd_B sd_B))))
          (of_size_t (n_A + n_B))"

text \<open>The invariant of the data model: the three vectors are aligned.\<close>

definition Result_inv :: "Result \<Rightarrow> bool" where
  "Result_inv r \<longleftrightarrow>
     length (nuclides r) = length (atoms r) \<and> length (atoms r) = length (uncertainty r)"

subsection \<open>Conditions and expressions of the statements\<close>

text \<open>
  The second loop runs over the left operand's \<^verbatim>\<open>atoms\<close>; it stays inside the three
  other vectors it indexes exactly when none of them is shorter.
\<close>

definition in_bounds :: "Result \<Rightarrow> Result \<Rightarrow> bool" where
  "in_bounds this other \<longleftrightarrow>
     length (atoms this) \<le> length (atoms other) \<and>
     length (atoms this) \<le> length (uncertainty this) \<and>
     length (atoms this) \<le> length (uncertainty other)"

text \<open>
  The two expressions of the operator, named: the weighted sum and the root of the
  weighted squares, each divided by the converted total \<open>t\<close>.
\<close>

definition avg :: "size_t \<Rightarrow> double \<Rightarrow> size_t \<Rightarrow> double \<Rightarrow> size_t \<Rightarrow> double" where
  "avg n x m y t = ddiv (dadd (dmul (of_size_t n) x) (dmul (of_size_t m) y)) (of_size_t t)"

definition quad :: "size_t \<Rightarrow> double \<Rightarrow> size_t \<Rightarrow> double \<Rightarrow> size_t \<Rightarrow> double" where
  "quad n x m y t =
     ddiv (dsqrt (dadd (dmul (dmul (of_size_t n) x) x) (dmul (dmul (of_size_t m) y) y)))
          (of_size_t t)"

text \<open>
  \<open>w\<close> is within the relative distance \<open>eps\<close> of \<open>v\<close>; a double is close to
  another when both are numbers and the second is within \<open>2 ^ - 49\<close> of the first.
\<close>

definition near :: "real \<Rightarrow> real \<Rightarrow> real \<Rightarrow> bool" where
  "near eps v w \<longleftrightarrow> \<bar>w - v\<bar> \<le> eps * \<bar>v\<bar>"

definition close_to :: "double \<Rightarrow> double \<Rightarrow> bool" where
  "close_to x y = (case (x, y) of (Num v, Num w) \<Rightarrow> near (pow2 (- 49)) v w | _ \<Rightarrow> False)"

text \<open>
  A mean that \<open>n\<close> samples can weigh without leaving the normal range of binary64:
  zero, or of magnitude at least \<open>2 ^ - 1021\<close> and at most \<open>2 ^ 1020 / n\<close>.
\<close>

definition mergeable_mean :: "size_t \<Rightarrow> double \<Rightarrow> bool" where
  "mergeable_mean n x =
     (case x of
        Num v \<Rightarrow> v = 0 \<or> pow2 (- 1021) \<le> \<bar>v\<bar> \<and> real (unat n) * \<bar>v\<bar> \<le> pow2 1020
      | _ \<Rightarrow> False)"

subsection \<open>Batches used as concrete inputs\<close>

text \<open>Two one-sample batches of a domain with one nuclide, exact in binary floating point.\<close>

definition batch_A :: Result where
  "batch_A = \<lparr>volume = (Num 2, Num 0), nuclides = [5], atoms = [Num 2],
              uncertainty = [Num 0], num_samples = 1\<rparr>"

definition batch_B :: Result where
  "batch_B = \<lparr>volume = (Num 6, Num 0), nuclides = [5], atoms = [Num 6],
              uncertainty = [Num 0], num_samples = 1\<rparr>"

text \<open>Two batches with equal means, one of them with a standard deviation.\<close>

definition batch_C :: Result where
  "batch_C = \<lparr>volume = (Num 4, Num 2), nuclides = [5], atoms = [Num 4],
              uncertainty = [Num 2], num_samples = 1\<rparr>"

definition batch_D :: Result where
  "batch_D = \<lparr>volume = (Num 4, Num 0), nuclides = [5], atoms = [Num 4],
              uncertainty = [Num 0], num_samples = 1\<rparr>"

text \<open>Two batches whose nuclide vectors differ in length.\<close>

definition batch_short :: Result where
  "batch_short = \<lparr>volume = (Num 0, Num 0), nuclides = [5], atoms = [Num 1],
                  uncertainty = [Num 0], num_samples = 1\<rparr>"

definition batch_long :: Result where
  "batch_long = \<lparr>volume = (Num 0, Num 0), nuclides = [5, 7], atoms = [Num 3, Num 8],
                 uncertainty = [Num 0, Num 0], num_samples = 1\<rparr>"

text \<open>A batch of \<open>2 ^ 63\<close> samples: twice its count is \<open>0\<close> in \<^verbatim>\<open>size_t\<close>.\<close>

definition batch_huge :: Result where
  "batch_huge = \<lparr>volume = (Num 1, Num 0), nuclides = [], atoms = [],
                 uncertainty = [], num_samples = 2 ^ 63\<rparr>"

text \<open>A batch of no samples.\<close>

definition batch_zero :: Result where
  "batch_zero = \<lparr>volume = (Num 0, Num 0), nuclides = [5], atoms = [Num 0],
                 uncertainty = [Num 0], num_samples = 0\<rparr>"

text \<open>A memory with \<open>batch_A\<close> at address 0 and \<open>batch_B\<close> everywhere else.\<close>

definition two_batches :: heap where
  "two_batches = (\<lambda>p. batch_B)(0 := batch_A)"

text \<open>
  A batch of three samples whose mean is the binary64 number nearest to one tenth,
  \<open>3602879701896397 / 2 ^ 55\<close>.
\<close>

definition batch_tenth :: Result where
  "batch_tenth = \<lparr>volume = (Num (3602879701896397 / 2 ^ 55), Num 0), nuclides = [],
                  atoms = [], uncertainty = [], num_samples = 3\<rparr>"

subsection \<open>Sampling and the estimator\<close>

text \<open>
  The header declares \<^verbatim>\<open>check_hit\<close>, \<^verbatim>\<open>execute\<close> and \<^verbatim>\<open>_execute\<close>; their bodies
  are in \<^verbatim>\<open>volume_calc.cpp\<close>, which is not among the sources. The definitions of this
  subsection are written from sections 4.1 to 4.3 of the specification, with the types of
  the header's declarations. The random stream and the geometry oracle are outside the
  core: the points drawn for a domain are a list, the oracle is two functions on points.
\<close>

text \<open>
  Modelled from the spec: \<^verbatim>\<open>Position\<close> (declared in \<^verbatim>\<open>openmc/position.h\<close>, not among
  the sources) is three floating-point coordinates, and the volume of the bounding box
  is the product of its three extents.
\<close>

type_synonym Position = "real \<times> real \<times> real"

definition bbox_volume :: "Position \<Rightarrow> Position \<Rightarrow> double" where
  "bbox_volume lower_left upper_right =
     (case (lower_left, upper_right) of
        ((x0, y0, z0), (x1, y1, z1)) \<Rightarrow> Num ((x1 - x0) * (y1 - y0) * (z1 - z0)))"

text \<open>
  Modelled from the spec: the body of \<^verbatim>\<open>check_hit\<close> (section 4.1). A material not yet
  seen is appended to \<open>indices\<close> with a hit count of zero; then the count standing beside
  the material is incremented by one.
\<close>

fun increment_hits :: "c_int \<Rightarrow> c_int list \<Rightarrow> c_int list \<Rightarrow> c_int list" where
  "increment_hits i_material (i # indices) (h # hits) =
     (if i = i_material then (h + 1) # hits else h # increment_hits i_material indices hits)"
| "increment_hits i_material _ hits = hits"

definition check_hit :: "c_int \<Rightarrow> c_int list \<times> c_int list \<Rightarrow> c_int list \<times> c_int list" where
  "check_hit i_material acc =
     (let (indices, hits) = acc;
          (indices, hits) = (if i_material \<in> set indices then (indices, hits)
                             else (indices @ [i_material], hits @ [0]))
      in (indices, increment_hits i_material indices hits))"

text \<open>
  Modelled from the spec: the sampling loop for one domain (section 4.2). For each
  point drawn, the oracle gives the domain the point lies in; a point of the target domain
  reports its material to \<open>check_hit\<close>.
\<close>

fun sample_domain ::
  "('p \<Rightarrow> c_int) \<Rightarrow> ('p \<Rightarrow> c_int) \<Rightarrow> c_int \<Rightarrow> 'p list \<Rightarrow> c_int list \<times> c_int list
     \<Rightarrow> c_int list \<times> c_int list" where
  "sample_domain domain_at material_at target [] acc = acc"
| "sample_domain domain_at material_at target (p # points) acc =
     sample_domain domain_at material_at target points
       (if domain_at p = target then check_hit (material_at p) acc else acc)"

text \<open>
  Modelled from the spec: the estimator (section 4.3). With \<open>p = h / n\<close> the volume is
  \<open>p * bbox_volume\<close> and its standard deviation \<open>sqrt (p * (1 - p) / n) * bbox_volume\<close>;
  the nuclides are those of the materials hit, in the order of their discovery; the atoms
  of nuclide \<open>j\<close> are the volume times the sum over the materials of \<open>h_m / h\<close> times the
  density of \<open>j\<close> in the material. The material model is the function \<open>density\<close>. The
  specification names what the uncertainty of a nuclide is propagated from and gives no
  formula for it: it is the parameter \<open>propagate\<close>.
\<close>

definition of_c_int :: "c_int \<Rightarrow> double" where
  "of_c_int k = Num (real_of_int (sint k))"

definition first_seen :: "'a list \<Rightarrow> 'a list" where
  "first_seen xs = rev (remdups (rev xs))"

definition density_of :: "(c_int \<times> double) list \<Rightarrow> c_int \<Rightarrow> double" where
  "density_of ds j = (case map_of ds j of None \<Rightarrow> Num 0 | Some d \<Rightarrow> d)"

definition dsum :: "double list \<Rightarrow> double" where
  "dsum xs = foldl dadd (Num 0) xs"

definition estimator ::
  "nat \<Rightarrow> double \<Rightarrow> (c_int \<Rightarrow> (c_int \<times> double) list) \<Rightarrow>
   (nat \<Rightarrow> c_int list \<times> c_int list \<Rightarrow> c_int \<Rightarrow> double) \<Rightarrow>
   c_int list \<times> c_int list \<Rightarrow> Result" where
  "estimator n box density propagate acc =
     (let (indices, hits) = acc;
          h = sum_list hits;
          p = ddiv (of_c_int h) (Num (real n));
          mean = dmul p box;
          sd = dmul (dsqrt (ddiv (dmul p (dsub (Num 1) p)) (Num (real n)))) box;
          js = first_seen (concat (map (\<lambda>m. map fst (density m)) indices));
          f = (\<lambda>h_m. ddiv (of_c_int h_m) (of_c_int h))
      in \<lparr>volume = (mean, sd),
          nuclides = js,
          atoms = map (\<lambda>j. dmul mean
                    (dsum (map (\<lambda>(m, h_m). dmul (f h_m) (density_of (density m) j))
                               (zip indices hits)))) js,
          uncertainty = map (propagate n acc) js,
          num_samples = of_nat n\<rparr>)"

text \<open>
  Modelled from the spec: one batch for one domain, the sampler followed by the
  estimator, over the points drawn for it.
\<close>

definition estimate_domain ::
  "Position \<Rightarrow> Position \<Rightarrow> (c_int \<Rightarrow> (c_int \<times> double) list) \<Rightarrow>
   (nat \<Rightarrow> c_int list \<times> c_int list \<Rightarrow> c_int \<Rightarrow> double) \<Rightarrow>
   ('p \<Rightarrow> c_int) \<Rightarrow> ('p \<Rightarrow> c_int) \<Rightarrow> c_int \<Rightarrow> 'p list \<Rightarrow> Result" where
  "estimate_domain lower_left upper_right density propagate domain_at material_at target points =
     estimator (length points) (bbox_volume lower_left upper_right) density propagate
       (sample_domain domain_at material_at target points ([], []))"

text \<open>
  A small world for concrete runs: the points are numbered, the even ones lie in domain 1
  and the odd ones in domain 2, all in material 3, which holds nuclide 5 at a density of
  \<open>1 / 128\<close>. Domain 4 is nowhere.
\<close>

definition world_domain_at :: "nat \<Rightarrow> c_int" where
  "world_domain_at p = (if even p then 1 else 2)"

definition world_material_at :: "nat \<Rightarrow> c_int" where
  "world_material_at p = 3"

definition world_density :: "c_int \<Rightarrow> (c_int \<times> double) list" where
  "world_density m = [(5, Num (1 / 128))]"

definition no_propagation :: "nat \<Rightarrow> c_int list \<times> c_int list \<Rightarrow> c_int \<Rightarrow> double" where
  "no_propagation n acc j = Num 0"

section \<open>Properties of the merge operator\<close>

subsection \<open>Rounding\<close>

lemma inf_of_sign_not_Num [simp]: "inf_of_sign x \<noteq> Num y" "Num y \<noteq> inf_of_sign x"
  by (simp_all add: inf_of_sign_def)

lemma pow2_pos [simp]: "0 < pow2 e" "0 \<le> pow2 e" "pow2 e \<noteq> 0"
  by (simp_all add: pow2_def)

lemma pow2_add: "pow2 (a + b) = pow2 a * pow2 b"
  by (simp add: pow2_def powr_add)

lemma pow2_diff: "pow2 (a - b) = pow2 a / pow2 b"
  by (simp add: pow2_def powr_diff)

lemma pow2_0 [simp]: "pow2 0 = 1"
  by (simp add: pow2_def)

lemma pow2_1 [simp]: "pow2 1 = 2"
  by (simp add: pow2_def)

lemma pow2_nat: "pow2 (int n) = 2 ^ n"
  by (simp add: pow2_def powr_realpow)

lemma pow2_numeral: "pow2 (numeral n) = 2 ^ numeral n"
  using pow2_nat [of "numeral n"] by simp

lemma pow2_neg_numeral: "pow2 (- numeral n) = 1 / 2 ^ numeral n"
  by (simp add: pow2_def powr_neg_numeral)

lemma pow2_le_iff [simp]: "pow2 a \<le> pow2 b \<longleftrightarrow> a \<le> b"
  by (simp add: pow2_def)

lemma pow2_less_iff [simp]: "pow2 a < pow2 b \<longleftrightarrow> a < b"
  by (simp add: pow2_def)

lemma pow2_mono: "a \<le> b \<Longrightarrow> pow2 a \<le> pow2 b"
  by simp

lemma pow2_less: "a < b \<Longrightarrow> pow2 a < pow2 b"
  by simp

lemma pow2_minus1: "pow2 (- 1) = 1 / 2"
  by (simp add: pow2_def powr_minus_divide)

lemma pow2_Suc: "pow2 (e + 1) = 2 * pow2 e"
  by (simp add: pow2_add)

lemma pow2_of_int: "0 \<le> e \<Longrightarrow> pow2 e = of_int (2 ^ nat e)"
  using pow2_nat [of "nat e"] by simp

lemma round_even_diff: "\<bar>of_int (round_even q) - q\<bar> \<le> 1 / 2"
proof -
  have "of_int \<lfloor>q\<rfloor> \<le> q" and "q < of_int \<lfloor>q\<rfloor> + 1" by linarith+
  then show ?thesis
    by (auto simp: round_even_def Let_def)
qed

lemma round_even_of_int [simp]: "round_even (of_int k) = k"
  by (simp add: round_even_def)

lemma floor_log2_eq:
  assumes "pow2 e \<le> \<bar>x\<bar>" and "\<bar>x\<bar> < pow2 (e + 1)"
  shows "\<lfloor>log 2 \<bar>x\<bar>\<rfloor> = e"
proof -
  have "0 < \<bar>x\<bar>" using assms(1) pow2_pos(1) [of e] by linarith
  then show ?thesis
    using assms by (simp add: floor_log_eq_powr_iff pow2_def)
qed

lemma floor_log2_bounds:
  assumes "x \<noteq> 0"
  shows "pow2 \<lfloor>log 2 \<bar>x\<bar>\<rfloor> \<le> \<bar>x\<bar>" and "\<bar>x\<bar> < pow2 (\<lfloor>log 2 \<bar>x\<bar>\<rfloor> + 1)"
proof -
  from assms have "0 < \<bar>x\<bar>" by simp
  then have "2 powr of_int \<lfloor>log 2 \<bar>x\<bar>\<rfloor> \<le> \<bar>x\<bar> \<and> \<bar>x\<bar> < 2 powr of_int (\<lfloor>log 2 \<bar>x\<bar>\<rfloor> + 1)"
    using floor_log_eq_powr_iff [of "\<bar>x\<bar>" 2 "\<lfloor>log 2 \<bar>x\<bar>\<rfloor>"] by simp
  then show "pow2 \<lfloor>log 2 \<bar>x\<bar>\<rfloor> \<le> \<bar>x\<bar>" and "\<bar>x\<bar> < pow2 (\<lfloor>log 2 \<bar>x\<bar>\<rfloor> + 1)"
    by (simp_all add: pow2_def)
qed

lemma ulp_exponent_eq:
  assumes "pow2 e \<le> \<bar>x\<bar>" and "\<bar>x\<bar> < pow2 (e + 1)"
  shows "ulp_exponent x = max e (- 1022) - 52"
  by (simp add: ulp_exponent_def floor_log2_eq [OF assms])

lemma round64_eval:
  assumes "pow2 e \<le> \<bar>x\<bar>" and "\<bar>x\<bar> < pow2 (e + 1)"
    and "round_even (x / pow2 (max e (- 1022) - 52)) = k"
    and "\<bar>of_int k * pow2 (max e (- 1022) - 52)\<bar> < huge"
  shows "round64 x = Num (of_int k * pow2 (max e (- 1022) - 52))"
proof -
  have "x \<noteq> 0"
  proof
    assume "x = 0"
    with assms(1) have "pow2 e \<le> 0" by simp
    with pow2_pos(1) [of e] show False by linarith
  qed
  with assms(3,4) show ?thesis
    by (simp add: round64_def ulp_exponent_eq [OF assms(1,2)] Let_def)
qed

text \<open>An integer of fewer than 54 bits times a power of two in range is a binary64 number.\<close>

lemma round64_dyadic:
  assumes m: "\<bar>m\<bar> < 2 ^ 53" and j: "- 1074 \<le> j" and x: "x = of_int m * pow2 j"
    and h: "\<bar>x\<bar> < huge"
  shows "round64 x = Num x"
proof (cases "m = 0")
  case True
  with x show ?thesis by (simp add: round64_def)
next
  case False
  with x have x0: "x \<noteq> 0" by simp
  define e where "e = \<lfloor>log 2 \<bar>x\<bar>\<rfloor>"
  define E where "E = ulp_exponent x"
  have E: "E = max e (- 1022) - 52" by (simp add: E_def e_def ulp_exponent_def)
  have "pow2 e \<le> \<bar>x\<bar>" unfolding e_def by (rule floor_log2_bounds(1) [OF x0])
  also have "\<bar>x\<bar> = \<bar>of_int m\<bar> * pow2 j" by (simp add: x abs_mult)
  also have "\<dots> < 2 ^ 53 * pow2 j"
  proof -
    from m have "\<bar>real_of_int m\<bar> < 2 ^ 53"
      by (metis of_int_abs of_int_less_numeral_power_cancel_iff)
    then show ?thesis by simp
  qed
  also have "\<dots> = pow2 (53 + j)" by (simp add: pow2_add pow2_numeral)
  finally have "pow2 e < pow2 (53 + j)" .
  then have "e < 53 + j" by (simp add: pow2_def)
  with j have Ej: "E \<le> j" by (simp add: E)
  then have p: "pow2 (j - E) = of_int (2 ^ nat (j - E))" by (simp add: pow2_of_int)
  have "x / pow2 E = of_int m * (pow2 j / pow2 E)" by (simp add: x)
  also have "\<dots> = of_int m * pow2 (j - E)" by (simp only: pow2_diff)
  also have "\<dots> = of_int (m * 2 ^ nat (j - E))" by (simp only: p of_int_mult)
  finally have "x / pow2 E = of_int (m * 2 ^ nat (j - E))" .
  then have "round_even (x / pow2 E) = m * 2 ^ nat (j - E)"
    by (simp only: round_even_of_int)
  moreover have "of_int (m * 2 ^ nat (j - E)) * pow2 E = x"
    using \<open>x / pow2 E = of_int (m * 2 ^ nat (j - E))\<close> by (simp add: field_simps)
  ultimately show ?thesis
    using x0 h by (simp add: round64_def Let_def E_def [symmetric])
qed

lemma round64_parts:
  assumes "x \<noteq> 0"
  obtains k where "k = round_even (x / pow2 (ulp_exponent x))"
    and "\<bar>of_int k * pow2 (ulp_exponent x) - x\<bar> \<le> pow2 (ulp_exponent x) / 2"
    and "round64 x = (if huge \<le> \<bar>of_int k * pow2 (ulp_exponent x)\<bar> then inf_of_sign x
                      else Num (of_int k * pow2 (ulp_exponent x)))"
proof
  let ?u = "pow2 (ulp_exponent x)"
  let ?k = "round_even (x / ?u)"
  show "?k = round_even (x / ?u)" ..
  have "\<bar>of_int ?k - x / ?u\<bar> \<le> 1 / 2" by (rule round_even_diff)
  then have "\<bar>of_int ?k - x / ?u\<bar> * ?u \<le> 1 / 2 * ?u"
    by (rule mult_right_mono) simp
  moreover have "\<bar>of_int ?k - x / ?u\<bar> * ?u = \<bar>of_int ?k * ?u - x\<bar>"
  proof -
    have "\<bar>of_int ?k - x / ?u\<bar> * ?u = \<bar>(of_int ?k - x / ?u) * ?u\<bar>"
      by (simp add: abs_mult)
    also have "(of_int ?k - x / ?u) * ?u = of_int ?k * ?u - x"
      by (simp add: left_diff_distrib)
    finally show ?thesis .
  qed
  ultimately show "\<bar>of_int ?k * ?u - x\<bar> \<le> ?u / 2" by simp
  from assms show "round64 x = (if huge \<le> \<bar>of_int ?k * ?u\<bar> then inf_of_sign x
                      else Num (of_int ?k * ?u))"
    by (simp add: round64_def Let_def)
qed

text \<open>In the normal range rounding changes a number by at most one part in \<open>2 ^ 53\<close>.\<close>

lemma round64_rel:
  assumes lo: "pow2 (- 1022) \<le> \<bar>x\<bar>" and hi: "\<bar>x\<bar> \<le> pow2 1023"
  obtains d where "\<bar>d\<bar> \<le> pow2 (- 53)" and "round64 x = Num (x * (1 + d))"
proof -
  have x0: "x \<noteq> 0"
  proof
    assume "x = 0"
    with lo have "pow2 (- 1022) \<le> 0" by simp
    with pow2_pos(1) [of "- 1022"] show False by linarith
  qed
  define e where "e = \<lfloor>log 2 \<bar>x\<bar>\<rfloor>"
  have eb: "pow2 e \<le> \<bar>x\<bar>" "\<bar>x\<bar> < pow2 (e + 1)"
    unfolding e_def by (rule floor_log2_bounds [OF x0])+
  have "pow2 (- 1022) < pow2 (e + 1)" using lo eb(2) by linarith
  then have e_lo: "- 1022 \<le> e" by simp
  have "pow2 e \<le> pow2 1023" using hi eb(1) by linarith
  then have e_hi: "e \<le> 1023" by simp
  have E: "ulp_exponent x = e - 52" using e_lo by (simp add: ulp_exponent_def e_def)
  obtain k where k: "\<bar>of_int k * pow2 (e - 52) - x\<bar> \<le> pow2 (e - 52) / 2"
    and r: "round64 x = (if huge \<le> \<bar>of_int k * pow2 (e - 52)\<bar> then inf_of_sign x
                      else Num (of_int k * pow2 (e - 52)))"
    using round64_parts [OF x0] unfolding E by metis
  define y where "y = of_int k * pow2 (e - 52)"
  have half: "pow2 (e - 52) / 2 = pow2 e * pow2 (- 53)"
  proof -
    have "pow2 e * pow2 (- 53) = pow2 (e - 52 + (- 1))" by (simp add: pow2_add [symmetric])
    also have "\<dots> = pow2 (e - 52) * pow2 (- 1)" by (simp only: pow2_add)
    also have "pow2 (- 1) = 1 / 2" by (rule pow2_minus1)
    finally show ?thesis by simp
  qed
  have err: "\<bar>y - x\<bar> \<le> \<bar>x\<bar> * pow2 (- 53)"
  proof -
    have "\<bar>y - x\<bar> \<le> pow2 e * pow2 (- 53)" using k half by (simp add: y_def)
    also have "\<dots> \<le> \<bar>x\<bar> * pow2 (- 53)" by (rule mult_right_mono [OF eb(1)]) simp
    finally show ?thesis .
  qed
  have small: "pow2 (- 53) \<le> 1 / 2"
  proof -
    have "pow2 (- 53) \<le> pow2 (- 1)" by (rule pow2_mono) simp
    also have "pow2 (- 1) = 1 / 2" by (rule pow2_minus1)
    finally show ?thesis .
  qed
  have "\<bar>y\<bar> \<le> \<bar>x\<bar> + \<bar>y - x\<bar>" by linarith
  also have "\<dots> \<le> \<bar>x\<bar> + \<bar>x\<bar> * (1 / 2)"
  proof -
    have "\<bar>x\<bar> * pow2 (- 53) \<le> \<bar>x\<bar> * (1 / 2)" by (rule mult_left_mono [OF small]) simp
    with err show ?thesis by linarith
  qed
  also have "\<dots> < 2 * pow2 1023" using hi x0 by simp
  also have "\<dots> = huge" by (simp add: huge_def pow2_Suc [of 1023, simplified])
  finally have "\<not> huge \<le> \<bar>y\<bar>" by simp
  with r have ry: "round64 x = Num y" by (simp add: y_def)
  define d where "d = (y - x) / x"
  have "\<bar>d\<bar> = \<bar>y - x\<bar> / \<bar>x\<bar>" by (simp add: d_def abs_divide)
  also have "\<dots> \<le> pow2 (- 53)"
    using err x0 by (simp add: pos_divide_le_eq mult.commute)
  finally have d1: "\<bar>d\<bar> \<le> pow2 (- 53)" .
  have "x * (1 + d) = y" using x0 by (simp add: d_def field_simps)
  with ry have "round64 x = Num (x * (1 + d))" by simp
  with d1 show ?thesis by (rule that)
qed

text \<open>Rounding commutes with doubling.\<close>

lemma round64_twice:
  assumes lo: "pow2 (- 1022) \<le> \<bar>x\<bar>" and r: "round64 x = Num y" and h: "\<bar>2 * y\<bar> < huge"
  shows "round64 (2 * x) = Num (2 * y)"
proof -
  have x0: "x \<noteq> 0"
  proof
    assume "x = 0"
    with lo have "pow2 (- 1022) \<le> 0" by simp
    with pow2_pos(1) [of "- 1022"] show False by linarith
  qed
  define e where "e = \<lfloor>log 2 \<bar>x\<bar>\<rfloor>"
  define E where "E = e - 52"
  have eb: "pow2 e \<le> \<bar>x\<bar>" "\<bar>x\<bar> < pow2 (e + 1)"
    unfolding e_def by (rule floor_log2_bounds [OF x0])+
  have "pow2 (- 1022) < pow2 (e + 1)" using lo eb(2) by linarith
  then have e_lo: "- 1022 \<le> e" by simp
  have E1: "ulp_exponent x = E" using e_lo by (simp add: ulp_exponent_def e_def E_def)
  have s: "pow2 (e + 1 + 1) = 2 * pow2 (e + 1)" "pow2 (e + 1) = 2 * pow2 e"
    by (rule pow2_Suc)+
  from eb have "pow2 (e + 1) \<le> \<bar>2 * x\<bar>" "\<bar>2 * x\<bar> < pow2 (e + 1 + 1)"
    unfolding s by (simp_all add: abs_mult)
  then have "ulp_exponent (2 * x) = max (e + 1) (- 1022) - 52" by (rule ulp_exponent_eq)
  with e_lo have E2: "ulp_exponent (2 * x) = E + 1" by (simp add: E_def)
  define k where "k = round_even (x / pow2 E)"
  have u: "pow2 (E + 1) = 2 * pow2 E" by (rule pow2_Suc)
  have q: "2 * x / pow2 (E + 1) = x / pow2 E" unfolding u by simp
  from r x0 have y: "y = of_int k * pow2 E"
    by (auto simp: round64_def Let_def E1 k_def split: if_splits)
  have y2: "of_int k * pow2 (E + 1) = 2 * y" unfolding u y by simp
  have "2 * x \<noteq> 0" using x0 by simp
  then have "round64 (2 * x) =
      (if huge \<le> \<bar>of_int (round_even (2 * x / pow2 (E + 1))) * pow2 (E + 1)\<bar>
       then inf_of_sign (2 * x)
       else Num (of_int (round_even (2 * x / pow2 (E + 1))) * pow2 (E + 1)))"
    by (simp only: round64_def Let_def E2 if_False)
  also have "\<dots> = (if huge \<le> \<bar>2 * y\<bar> then inf_of_sign (2 * x) else Num (2 * y))"
    by (simp only: q k_def [symmetric] y2)
  also have "\<dots> = Num (2 * y)" using h by simp
  finally show ?thesis .
qed

lemma round64_0 [simp]: "round64 0 = Num 0"
  by (simp add: round64_def)

lemma huge_gt: "2 ^ 64 < huge"
proof -
  have "pow2 64 < pow2 1024" by simp
  then show ?thesis by (simp only: huge_def pow2_numeral)
qed

lemma round64_int:
  assumes "\<bar>k\<bar> < 2 ^ 53"
  shows "round64 (of_int k) = Num (of_int k)"
proof (rule round64_dyadic [OF assms, of 0])
  show "of_int k = of_int k * pow2 0" by simp
  from assms have "\<bar>real_of_int k\<bar> < 2 ^ 53"
    by (metis of_int_abs of_int_less_numeral_power_cancel_iff)
  also have "(2::real) ^ 53 < 2 ^ 64" by simp
  finally show "\<bar>real_of_int k\<bar> < huge" using huge_gt by linarith
qed simp

lemma round64_numeral [simp]:
  "numeral k < (2::int) ^ 53 \<Longrightarrow> round64 (numeral k) = Num (numeral k)"
  using round64_int [of "numeral k"] by simp

lemma round64_1 [simp]: "round64 1 = Num 1"
  using round64_int [of 1] by simp

lemma round64_half [simp]: "round64 (1 / 2) = Num (1 / 2)"
proof (rule round64_dyadic [of 1 "- 1"])
  show "(1 / 2 :: real) = of_int 1 * pow2 (- 1)" by (simp add: pow2_minus1)
  have "(1 / 2 :: real) < 2 ^ 64" by simp
  then show "\<bar>1 / 2 :: real\<bar> < huge" using huge_gt by simp
qed simp_all

lemma round64_eval_small:
  assumes "pow2 e \<le> \<bar>x\<bar>" and "\<bar>x\<bar> < pow2 (e + 1)" and "- 1022 \<le> e"
    and "round_even (x / pow2 (e - 52)) = k"
    and "\<bar>of_int k * pow2 (e - 52)\<bar> < 2 ^ 64"
  shows "round64 x = Num (of_int k * pow2 (e - 52))"
proof -
  from assms(3) have m: "max e (- 1022) - 52 = e - 52" by simp
  from assms(5) huge_gt have "\<bar>of_int k * pow2 (e - 52)\<bar> < huge" by linarith
  with round64_eval [OF assms(1,2), of k] assms(4) show ?thesis
    unfolding m by simp
qed

subsection \<open>The two loops\<close>

lemma volume_loop_twice:
  "volume_loop 0 t other this = volume_body t other (volume_body t other this)"
  by (simp add: volume_loop.simps [of 0] volume_loop.simps [of "Suc 0"]
      volume_loop.simps [of "Suc (Suc 0)"] volume_size_def)

lemma volume_body_eq:
  "volume_body t other this =
     this\<lparr>volume :=
       (avg (num_samples this) (fst (volume this)) (num_samples other) (fst (volume other)) t,
        quad (num_samples this) (snd (volume this)) (num_samples other) (snd (volume other)) t)\<rparr>"
  by (simp add: volume_body_def avg_def quad_def Let_def)

lemma atoms_body_eq:
  "atoms_body i t other this =
     (if i < length (atoms other) \<and> i < length (uncertainty this)
         \<and> i < length (uncertainty other)
      then Inr (this\<lparr>atoms := (atoms this)
                       [i := avg (num_samples this) (atoms this ! i)
                                 (num_samples other) (atoms other ! i) t],
                     uncertainty := (uncertainty this)
                       [i := quad (num_samples this) (uncertainty this ! i)
                                  (num_samples other) (uncertainty other ! i) t]\<rparr>)
      else Inl OutOfBounds)"
  by (simp add: atoms_body_def avg_def quad_def Let_def)

text \<open>The second loop touches nothing but the entries of the two vectors.\<close>

lemma atoms_loop_frame:
  "atoms_loop i t other this = Inr r \<Longrightarrow>
     volume r = volume this \<and> nuclides r = nuclides this \<and>
     num_samples r = num_samples this \<and>
     length (atoms r) = length (atoms this) \<and>
     length (uncertainty r) = length (uncertainty this)"
proof (induction i t other this rule: atoms_loop.induct)
  case (1 i t other this)
  show ?case
  proof (cases "i < length (atoms this)")
    case False
    with "1.prems" show ?thesis by (simp add: atoms_loop.simps [of i])
  next
    case True
    with "1.prems" obtain this' where b: "atoms_body i t other this = Inr this'"
      and l: "atoms_loop (Suc i) t other this' = Inr r"
      by (auto simp: atoms_loop.simps [of i] split: sum.splits)
    from "1.IH" [OF True b l] b show ?thesis
      by (auto simp: atoms_body_eq split: if_splits)
  qed
qed

text \<open>Its only failure is an index past the end of a vector.\<close>

lemma atoms_loop_error:
  "atoms_loop i t other this = Inl e \<Longrightarrow> e = OutOfBounds"
proof (induction i t other this rule: atoms_loop.induct)
  case (1 i t other this)
  show ?case
  proof (cases "atoms_body i t other this")
    case (Inl e')
    with "1.prems" show ?thesis
      by (auto simp: atoms_loop.simps [of i] atoms_body_eq split: if_splits)
  next
    case (Inr this')
    with "1.prems" "1.IH" show ?thesis
      by (auto simp: atoms_loop.simps [of i] split: if_splits)
  qed
qed

lemma atoms_loop_returns:
  "i \<le> length (atoms this) \<Longrightarrow>
   (\<exists>r. atoms_loop i t other this = Inr r) \<longleftrightarrow>
     (i < length (atoms this) \<longrightarrow> in_bounds this other)"
proof (induction i t other this rule: atoms_loop.induct)
  case (1 i t other this)
  show ?case
  proof (cases "i < length (atoms this)")
    case False
    then show ?thesis by (simp add: atoms_loop.simps [of i])
  next
    case True
    show ?thesis
    proof (cases "atoms_body i t other this")
      case (Inl e)
      with True show ?thesis
        by (auto simp: atoms_loop.simps [of i] atoms_body_eq in_bounds_def split: if_splits)
    next
      case (Inr this')
      then have eq: "length (atoms this') = length (atoms this)"
          "length (uncertainty this') = length (uncertainty this)"
        and ok: "i < length (atoms other)" "i < length (uncertainty this)"
          "i < length (uncertainty other)"
        by (auto simp: atoms_body_eq split: if_splits)
      from True eq have "Suc i \<le> length (atoms this')" by simp
      from "1.IH" [OF True Inr this]
      have "(\<exists>r. atoms_loop (Suc i) t other this' = Inr r) \<longleftrightarrow>
            (Suc i < length (atoms this') \<longrightarrow> in_bounds this' other)" .
      with True Inr eq ok show ?thesis
        by (auto simp: atoms_loop.simps [of i] in_bounds_def)
    qed
  qed
qed

text \<open>Entry \<open>j\<close> is rewritten once, when the index reaches it.\<close>

lemma atoms_loop_nth:
  "atoms_loop i t other this = Inr r \<Longrightarrow> j < length (atoms this) \<Longrightarrow>
   atoms r ! j =
     (if i \<le> j
      then avg (num_samples this) (atoms this ! j) (num_samples other) (atoms other ! j) t
      else atoms this ! j)"
proof (induction i t other this rule: atoms_loop.induct)
  case (1 i t other this)
  show ?case
  proof (cases "i < length (atoms this)")
    case False
    with "1.prems" show ?thesis by (simp add: atoms_loop.simps [of i])
  next
    case True
    with "1.prems" obtain this' where b: "atoms_body i t other this = Inr this'"
      and l: "atoms_loop (Suc i) t other this' = Inr r"
      by (auto simp: atoms_loop.simps [of i] split: sum.splits)
    from b have this': "this' = this\<lparr>atoms := (atoms this)
                       [i := avg (num_samples this) (atoms this ! i)
                                 (num_samples other) (atoms other ! i) t],
                     uncertainty := (uncertainty this)
                       [i := quad (num_samples this) (uncertainty this ! i)
                                  (num_samples other) (uncertainty other ! i) t]\<rparr>"
      by (auto simp: atoms_body_eq split: if_splits)
    from "1.prems" this' have j: "j < length (atoms this')" by simp
    from "1.IH" [OF True b l j] True "1.prems"(2) show ?thesis
      by (cases "i = j") (auto simp: this' nth_list_update)
  qed
qed

lemma uncertainty_loop_nth:
  "atoms_loop i t other this = Inr r \<Longrightarrow> j < length (uncertainty this) \<Longrightarrow>
   uncertainty r ! j =
     (if i \<le> j \<and> j < length (atoms this)
      then quad (num_samples this) (uncertainty this ! j)
                (num_samples other) (uncertainty other ! j) t
      else uncertainty this ! j)"
proof (induction i t other this rule: atoms_loop.induct)
  case (1 i t other this)
  show ?case
  proof (cases "i < length (atoms this)")
    case False
    with "1.prems" show ?thesis by (auto simp: atoms_loop.simps [of i])
  next
    case True
    with "1.prems" obtain this' where b: "atoms_body i t other this = Inr this'"
      and l: "atoms_loop (Suc i) t other this' = Inr r"
      by (auto simp: atoms_loop.simps [of i] split: sum.splits)
    from b have this': "this' = this\<lparr>atoms := (atoms this)
                       [i := avg (num_samples this) (atoms this ! i)
                                 (num_samples other) (atoms other ! i) t],
                     uncertainty := (uncertainty this)
                       [i := quad (num_samples this) (uncertainty this ! i)
                                  (num_samples other) (uncertainty other ! i) t]\<rparr>"
      by (auto simp: atoms_body_eq split: if_splits)
    from "1.prems" this' have j: "j < length (uncertainty this')" by simp
    from "1.IH" [OF True b l j] True "1.prems"(2) show ?thesis
      by (cases "i = j") (auto simp: this' nth_list_update)
  qed
qed

subsection \<open>The operator as a whole\<close>

lemma volume_loop_fields [simp]:
  "atoms (volume_loop 0 t other this) = atoms this"
  "uncertainty (volume_loop 0 t other this) = uncertainty this"
  "nuclides (volume_loop 0 t other this) = nuclides this"
  "num_samples (volume_loop 0 t other this) = num_samples this"
  by (simp_all add: volume_loop_twice volume_body_eq)

text \<open>
  The first loop runs its body \<^verbatim>\<open>volume.size()\<close> times, so the mean and the standard
  deviation are each folded with the right operand's twice.
\<close>

lemma volume_loop_volume:
  "volume (volume_loop 0 t other this) =
     (avg (num_samples this)
          (avg (num_samples this) (fst (volume this)) (num_samples other) (fst (volume other)) t)
          (num_samples other) (fst (volume other)) t,
      quad (num_samples this)
           (quad (num_samples this) (snd (volume this)) (num_samples other) (snd (volume other)) t)
           (num_samples other) (snd (volume other)) t)"
  by (simp add: volume_loop_twice volume_body_eq)

lemma operator_plus_eq_unfold:
  "operator_plus_eq this other =
     (case atoms_loop 0 (num_samples this + num_samples other) other
             (volume_loop 0 (num_samples this + num_samples other) other this) of
        Inl e \<Rightarrow> Inl e
      | Inr r \<Rightarrow> Inr (r\<lparr>num_samples := num_samples this + num_samples other\<rparr>))"
  by (simp add: operator_plus_eq_def Let_def)

text \<open>The operator returns exactly when the second loop stays inside the vectors.\<close>

lemma operator_plus_eq_returns:
  "(\<exists>R. operator_plus_eq this other = Inr R) \<longleftrightarrow> in_bounds this other"
proof -
  let ?t = "num_samples this + num_samples other"
  let ?v = "volume_loop 0 ?t other this"
  have "(\<exists>R. operator_plus_eq this other = Inr R) \<longleftrightarrow>
        (\<exists>r. atoms_loop 0 ?t other ?v = Inr r)"
    by (auto simp: operator_plus_eq_unfold split: sum.splits)
  also have "\<dots> \<longleftrightarrow> (0 < length (atoms ?v) \<longrightarrow> in_bounds ?v other)"
    by (rule atoms_loop_returns) simp
  also have "\<dots> \<longleftrightarrow> in_bounds this other"
    by (auto simp: in_bounds_def)
  finally show ?thesis .
qed

text \<open>Aligned operands of one size are in bounds.\<close>

lemma in_bounds_inv:
  "Result_inv A \<Longrightarrow> Result_inv B \<Longrightarrow> length (nuclides A) = length (nuclides B) \<Longrightarrow>
   in_bounds A B"
  by (simp add: Result_inv_def in_bounds_def)

text \<open>No pair of operands makes an \<^verbatim>\<open>Expects\<close> fail.\<close>

lemma operator_plus_eq_error:
  "operator_plus_eq this other = Inl e \<Longrightarrow> e = OutOfBounds"
  by (auto simp: operator_plus_eq_unfold split: sum.splits dest: atoms_loop_error)

lemma operator_plus_eq_fields:
  assumes "operator_plus_eq this other = Inr R"
  shows "num_samples R = num_samples this + num_samples other"
    and "nuclides R = nuclides this"
    and "length (atoms R) = length (atoms this)"
    and "length (uncertainty R) = length (uncertainty this)"
    and "volume R = volume (volume_loop 0 (num_samples this + num_samples other) other this)"
proof -
  let ?t = "num_samples this + num_samples other"
  from assms obtain r where r: "atoms_loop 0 ?t other (volume_loop 0 ?t other this) = Inr r"
    and R: "R = r\<lparr>num_samples := ?t\<rparr>"
    by (auto simp: operator_plus_eq_unfold split: sum.splits)
  from atoms_loop_frame [OF r] R
  show "num_samples R = num_samples this + num_samples other"
    and "nuclides R = nuclides this"
    and "length (atoms R) = length (atoms this)"
    and "length (uncertainty R) = length (uncertainty this)"
    and "volume R = volume (volume_loop 0 (num_samples this + num_samples other) other this)"
    by simp_all
qed

lemma operator_plus_eq_atoms_nth:
  assumes "operator_plus_eq this other = Inr R" and "j < length (atoms this)"
  shows "atoms R ! j =
           avg (num_samples this) (atoms this ! j) (num_samples other) (atoms other ! j)
               (num_samples this + num_samples other)"
proof -
  let ?t = "num_samples this + num_samples other"
  from assms obtain r where r: "atoms_loop 0 ?t other (volume_loop 0 ?t other this) = Inr r"
    and R: "R = r\<lparr>num_samples := ?t\<rparr>"
    by (auto simp: operator_plus_eq_unfold split: sum.splits)
  from atoms_loop_nth [OF r, of j] assms(2) R show ?thesis by simp
qed

lemma operator_plus_eq_uncertainty_nth:
  assumes "operator_plus_eq this other = Inr R" and "j < length (uncertainty this)"
  shows "uncertainty R ! j =
           (if j < length (atoms this)
            then quad (num_samples this) (uncertainty this ! j) (num_samples other)
                      (uncertainty other ! j) (num_samples this + num_samples other)
            else uncertainty this ! j)"
proof -
  let ?t = "num_samples this + num_samples other"
  from assms obtain r where r: "atoms_loop 0 ?t other (volume_loop 0 ?t other this) = Inr r"
    and R: "R = r\<lparr>num_samples := ?t\<rparr>"
    by (auto simp: operator_plus_eq_unfold split: sum.splits)
  from uncertainty_loop_nth [OF r, of j] assms(2) R show ?thesis by simp
qed

subsection \<open>Arithmetic of the two expressions\<close>

lemma of_size_t_0 [simp]: "of_size_t 0 = Num 0"
  by (simp add: of_size_t_def)

lemma pow2_minus53_le: "pow2 (- 53) \<le> 1 / 2"
proof -
  have "pow2 (- 53) \<le> pow2 (- 1)" by simp
  then show ?thesis by (simp only: pow2_minus1)
qed

lemma count_bounds:
  fixes k :: nat
  assumes "0 < k" and "k < 2 ^ 64"
  shows "pow2 (- 1022) \<le> \<bar>real k\<bar>" and "\<bar>real k\<bar> \<le> pow2 1023"
proof -
  from assms(1) have 1: "1 \<le> real k" by simp
  from assms(2) have 2: "real k < 2 ^ 64" by simp
  have "pow2 (- 1022) \<le> 1" using pow2_mono [of "- 1022" 0] by simp
  with 1 show "pow2 (- 1022) \<le> \<bar>real k\<bar>" by simp
  have "pow2 64 \<le> pow2 1023" by simp
  then have "(2::real) ^ 64 \<le> pow2 1023" by (simp only: pow2_numeral)
  with 1 2 show "\<bar>real k\<bar> \<le> pow2 1023" by simp
qed

text \<open>
  A count below \<open>2 ^ 64\<close> converts to a number: at least one and at most twice the
  count, when the count is not zero.
\<close>

lemma round64_count:
  fixes k :: nat
  assumes "0 < k" and "k < 2 ^ 64"
  obtains N where "round64 (real k) = Num N" and "1 \<le> N" and "N \<le> 2 * real k"
proof (cases "k < 2 ^ 53")
  case True
  then have "int k < int (2 ^ 53)" by (simp only: of_nat_less_iff)
  then have "\<bar>int k\<bar> < 2 ^ 53" by simp
  then have "round64 (of_int (int k)) = Num (of_int (int k))"
    by (rule round64_int)
  then have "round64 (real k) = Num (real k)" by simp
  moreover from assms(1) have "1 \<le> real k" "real k \<le> 2 * real k" by simp_all
  ultimately show ?thesis by (rule that)
next
  case False
  then have big: "2 ^ 53 \<le> real k"
    by (metis not_less numeral_power_le_of_nat_cancel_iff)
  obtain d where d: "\<bar>d\<bar> \<le> pow2 (- 53)"
    and r: "round64 (real k) = Num (real k * (1 + d))"
    using round64_rel [OF count_bounds [OF assms]] by blast
  from d pow2_minus53_le have d2: "\<bar>d\<bar> \<le> 1 / 2" by linarith
  have "1 \<le> (2::real) ^ 53 * (1 / 2)" by simp
  also have "\<dots> \<le> real k * (1 + d)"
    by (rule mult_mono [OF big]) (use d2 in \<open>auto simp: abs_le_iff\<close>)
  finally have lo: "1 \<le> real k * (1 + d)" .
  have "real k * (1 + d) \<le> real k * 2"
    by (rule mult_left_mono) (use d2 in \<open>auto simp: abs_le_iff\<close>)
  then have hi: "real k * (1 + d) \<le> 2 * real k" by simp
  from r lo hi show ?thesis by (rule that)
qed

text \<open>Twice a count that stays below \<open>2 ^ 64\<close> converts to twice the converted count.\<close>

lemma round64_count_twice:
  fixes k :: nat
  assumes "k < 2 ^ 63" and "round64 (real k) = Num r"
  shows "round64 (real (k + k)) = Num (2 * r)"
proof (cases "k = 0")
  case True
  with assms(2) show ?thesis by simp
next
  case False
  then have k: "0 < k" "k < 2 ^ 64" using assms(1) by simp_all
  obtain N where N: "round64 (real k) = Num N" "1 \<le> N" "N \<le> 2 * real k"
    using round64_count [OF k] by blast
  with assms(2) have rN: "r = N" by simp
  from k(2) have "real k < 2 ^ 64" by simp
  with N(2,3) have "\<bar>2 * r\<bar> < 4 * 2 ^ 64" by (simp add: rN)
  also have "(4::real) * 2 ^ 64 = pow2 66" by (simp add: pow2_numeral)
  also have "pow2 66 < huge" by (simp add: huge_def)
  finally have h: "\<bar>2 * r\<bar> < huge" .
  from count_bounds(1) [OF k] assms(2) h have "round64 (2 * real k) = Num (2 * r)"
    by (rule round64_twice)
  then show ?thesis by (simp only: of_nat_add mult_2)
qed

lemma unat_size_t_less: "unat (n :: size_t) < 2 ^ 64"
  using unsigned_less [of n, where ?'a = nat] by simp

lemma real_unat_ge_1:
  fixes n :: size_t
  assumes "n \<noteq> 0"
  shows "1 \<le> real (unat n)"
proof -
  from assms have "0 < unat n" by (simp add: unat_gt_0)
  then have "1 \<le> unat n" by linarith
  then show ?thesis by (metis of_nat_1 of_nat_le_iff)
qed

lemma of_size_t_pos:
  assumes "n \<noteq> 0"
  obtains N where "of_size_t n = Num N" and "1 \<le> N" and "N \<le> 2 * real (unat n)"
proof -
  from assms have "0 < unat n" by (simp add: unat_gt_0)
  then show ?thesis
    using round64_count [OF _ unat_size_t_less [of n]] that
    unfolding of_size_t_def by blast
qed

lemma of_size_t_Num:
  obtains r where "of_size_t n = Num r" and "0 \<le> r" and "r = 0 \<longleftrightarrow> n = 0"
proof (cases "n = 0")
  case True
  then show ?thesis by (intro that [of 0]) simp_all
next
  case False
  then obtain N where "of_size_t n = Num N" and "1 \<le> N"
    by (rule of_size_t_pos)
  with False show ?thesis by (intro that [of N]) simp_all
qed

lemma of_size_t_eq_zero: "of_size_t t = Num 0 \<longleftrightarrow> t = 0"
  by (rule of_size_t_Num [of t]) simp

lemma unat_twice:
  fixes n :: size_t
  assumes "unat n < 2 ^ 63"
  shows "unat (n + n) = unat n + unat n"
proof -
  have "unat n + unat n < 2 ^ LENGTH(64)" using assms by simp
  then show ?thesis by (simp only: unat_add_lem [THEN iffD1])
qed

lemma of_size_t_double:
  assumes "unat n < 2 ^ 63" and "of_size_t n = Num r"
  shows "of_size_t (n + n) = Num (2 * r)"
  using round64_count_twice [OF assms(1)] assms(2)
  unfolding of_size_t_def unat_twice [OF assms(1)] by blast

lemma dadd_commute: "dadd x y = dadd y x"
  by (cases x; cases y) (simp_all add: add.commute)

text \<open>The operator's weighted sum is the specification's, with the total as divisor.\<close>

lemma avg_spec_mean: "avg n x m y (n + m) = spec_mean n x m y"
  by (simp add: avg_def spec_mean_def)

lemma avg_commute: "avg n x m y (n + m) = avg m y n x (m + n)"
  by (simp add: avg_def dadd_commute [of "dmul (of_size_t n) x"] add.commute)

lemma avg_zero: "avg 0 x 0 y 0 = NaN"
  by (cases x; cases y) (simp_all add: avg_def inf_of_sign_def)

lemma quad_zero: "quad 0 x 0 y 0 = NaN"
  by (cases x; cases y) (simp_all add: quad_def inf_of_sign_def)

subsection \<open>A mean merged with itself\<close>

lemma near_refl: "0 \<le> eps \<Longrightarrow> near eps v v"
  by (simp add: near_def)

lemma near_mono: "near eps v w \<Longrightarrow> eps \<le> eps' \<Longrightarrow> near eps' v w"
proof -
  assume a: "near eps v w" and b: "eps \<le> eps'"
  have "eps * \<bar>v\<bar> \<le> eps' * \<bar>v\<bar>" by (rule mult_right_mono [OF b]) simp
  with a show ?thesis by (simp add: near_def)
qed

lemma near_scale: "near eps v w \<Longrightarrow> near eps (c * v) (c * w)"
proof -
  assume a: "near eps v w"
  have "\<bar>c * w - c * v\<bar> = \<bar>c\<bar> * \<bar>w - v\<bar>"
    by (simp add: right_diff_distrib [symmetric] abs_mult)
  also have "\<dots> \<le> \<bar>c\<bar> * (eps * \<bar>v\<bar>)"
    by (rule mult_left_mono) (use a in \<open>simp_all add: near_def\<close>)
  also have "\<dots> = eps * \<bar>c * v\<bar>" by (simp add: abs_mult)
  finally show ?thesis by (simp add: near_def)
qed

lemma near_add: "near eps v w1 \<Longrightarrow> near eps v w2 \<Longrightarrow> near eps (2 * v) (w1 + w2)"
proof -
  assume a: "near eps v w1" and b: "near eps v w2"
  have "\<bar>w1 + w2 - 2 * v\<bar> \<le> \<bar>w1 - v\<bar> + \<bar>w2 - v\<bar>" by linarith
  also have "\<dots> \<le> eps * \<bar>v\<bar> + eps * \<bar>v\<bar>"
    using a b by (simp add: near_def)
  also have "\<dots> = eps * \<bar>2 * v\<bar>" by (simp add: abs_mult)
  finally show ?thesis by (simp add: near_def)
qed

lemma near_bounds:
  assumes "near eps v w" and "eps \<le> 1 / 2"
  shows "\<bar>v\<bar> / 2 \<le> \<bar>w\<bar>" and "\<bar>w\<bar> \<le> 2 * \<bar>v\<bar>"
proof -
  have "eps * \<bar>v\<bar> \<le> 1 / 2 * \<bar>v\<bar>" by (rule mult_right_mono [OF assms(2)]) simp
  with assms(1) have d: "\<bar>w - v\<bar> \<le> \<bar>v\<bar> / 2" by (simp add: near_def)
  then show "\<bar>v\<bar> / 2 \<le> \<bar>w\<bar>" and "\<bar>w\<bar> \<le> 2 * \<bar>v\<bar>" by linarith+
qed

text \<open>Rounding a number near \<open>v\<close> adds two parts in \<open>2 ^ 53\<close> to the distance.\<close>

lemma near_round:
  assumes n: "near eps v w" and e: "0 \<le> eps" "eps \<le> 1 / 2"
    and lo: "pow2 (- 1021) \<le> \<bar>v\<bar>" and hi: "\<bar>v\<bar> \<le> pow2 1022"
  obtains w' where "round64 w = Num w'" and "near (eps + 2 * pow2 (- 53)) v w'"
proof -
  note b = near_bounds [OF n e(2)]
  have "pow2 (- 1021) = 2 * pow2 (- 1022)" using pow2_Suc [of "- 1022"] by simp
  with lo b(1) have wlo: "pow2 (- 1022) \<le> \<bar>w\<bar>" by linarith
  have "pow2 1023 = 2 * pow2 1022" using pow2_Suc [of 1022] by simp
  with hi b(2) have whi: "\<bar>w\<bar> \<le> pow2 1023" by linarith
  obtain d where d: "\<bar>d\<bar> \<le> pow2 (- 53)" and r: "round64 w = Num (w * (1 + d))"
    using round64_rel [OF wlo whi] by blast
  have "\<bar>w * (1 + d) - v\<bar> \<le> \<bar>w - v\<bar> + \<bar>w\<bar> * \<bar>d\<bar>"
  proof -
    have "w * (1 + d) - v = (w - v) + w * d" by (simp add: algebra_simps)
    then have "\<bar>w * (1 + d) - v\<bar> \<le> \<bar>w - v\<bar> + \<bar>w * d\<bar>" by linarith
    then show ?thesis by (simp add: abs_mult)
  qed
  also have "\<dots> \<le> eps * \<bar>v\<bar> + (2 * \<bar>v\<bar>) * pow2 (- 53)"
  proof -
    have "\<bar>w\<bar> * \<bar>d\<bar> \<le> (2 * \<bar>v\<bar>) * pow2 (- 53)"
      by (rule mult_mono [OF b(2) d]) simp_all
    with n show ?thesis by (simp add: near_def)
  qed
  also have "\<dots> = (eps + 2 * pow2 (- 53)) * \<bar>v\<bar>" by (simp add: algebra_simps)
  finally have "near (eps + 2 * pow2 (- 53)) v (w * (1 + d))" by (simp add: near_def)
  with r show ?thesis by (rule that)
qed

lemma pow2_minus53_small: "0 \<le> pow2 (- 53)" "16 * pow2 (- 53) = pow2 (- 49)"
  "pow2 (- 49) \<le> 1 / 4"
proof -
  show "0 \<le> pow2 (- 53)" by simp
  have "pow2 (- 49) = pow2 4 * pow2 (- 53)" by (simp add: pow2_add [symmetric])
  then show "16 * pow2 (- 53) = pow2 (- 49)" by (simp add: pow2_numeral)
  have "pow2 (- 49) \<le> pow2 (- 2)" by simp
  then show "pow2 (- 49) \<le> 1 / 4" by (simp add: pow2_neg_numeral)
qed

text \<open>
  One pass of the weighted mean at equal weights, over two numbers near \<open>v\<close>: three
  roundings lie between the operands and the result.
\<close>

lemma avg_near:
  assumes n: "n \<noteq> 0" "unat n < 2 ^ 63"
    and lo: "pow2 (- 1021) \<le> \<bar>v\<bar>" and hi: "real (unat n) * \<bar>v\<bar> \<le> pow2 1020"
    and x: "near eps v x1" "near eps v x2" and e: "0 \<le> eps" "eps \<le> pow2 (- 49)"
  obtains w where "avg n (Num x1) n (Num x2) (n + n) = Num w"
    and "near (eps + 6 * pow2 (- 53)) v w"
proof -
  note u = pow2_minus53_small
  from e u have e2: "eps \<le> 1 / 2" "eps + 2 * pow2 (- 53) \<le> 1 / 2"
    "eps + 4 * pow2 (- 53) \<le> 1 / 2"
    "0 \<le> eps + 2 * pow2 (- 53)" "0 \<le> eps + 4 * pow2 (- 53)"
    by linarith+
  obtain N where N: "of_size_t n = Num N" "1 \<le> N" "N \<le> 2 * real (unat n)"
    using of_size_t_pos [OF n(1)] by blast
  have T: "of_size_t (n + n) = Num (2 * N)" by (rule of_size_t_double [OF n(2) N(1)])
  have k1: "1 \<le> real (unat n)" by (rule real_unat_ge_1 [OF n(1)])
  have vhi: "\<bar>v\<bar> \<le> pow2 1020"
  proof -
    have "1 * \<bar>v\<bar> \<le> real (unat n) * \<bar>v\<bar>" by (rule mult_right_mono [OF k1]) simp
    with hi show ?thesis by simp
  qed
  have p: "pow2 1021 = 2 * pow2 1020" "pow2 1022 = 2 * pow2 1021"
    using pow2_Suc [of 1020] pow2_Suc [of 1021] by simp_all
  have Nv_lo: "pow2 (- 1021) \<le> \<bar>N * v\<bar>"
  proof -
    have "1 * \<bar>v\<bar> \<le> N * \<bar>v\<bar>" by (rule mult_right_mono [OF N(2)]) simp
    with lo N(2) show ?thesis by (simp add: abs_mult)
  qed
  have Nv_hi: "\<bar>N * v\<bar> \<le> pow2 1021"
  proof -
    have "N * \<bar>v\<bar> \<le> (2 * real (unat n)) * \<bar>v\<bar>" by (rule mult_right_mono [OF N(3)]) simp
    with hi N(2) show ?thesis by (simp add: abs_mult p)
  qed
  from Nv_hi p have Nv_hi': "\<bar>N * v\<bar> \<le> pow2 1022" by simp
  obtain a1 where a1: "round64 (N * x1) = Num a1" "near (eps + 2 * pow2 (- 53)) (N * v) a1"
    using near_round [OF near_scale [OF x(1)] e(1) e2(1) Nv_lo Nv_hi'] by blast
  obtain a2 where a2: "round64 (N * x2) = Num a2" "near (eps + 2 * pow2 (- 53)) (N * v) a2"
    using near_round [OF near_scale [OF x(2)] e(1) e2(1) Nv_lo Nv_hi'] by blast
  have s: "near (eps + 2 * pow2 (- 53)) (2 * (N * v)) (a1 + a2)"
    by (rule near_add [OF a1(2) a2(2)])
  have s_lo: "pow2 (- 1021) \<le> \<bar>2 * (N * v)\<bar>"
  proof -
    have "\<bar>N * v\<bar> \<le> 2 * \<bar>N * v\<bar>" by simp
    also have "\<dots> = \<bar>2 * (N * v)\<bar>" by (simp add: abs_mult)
    finally show ?thesis using Nv_lo by linarith
  qed
  have s_hi: "\<bar>2 * (N * v)\<bar> \<le> pow2 1022"
  proof -
    have "\<bar>2 * (N * v)\<bar> = 2 * \<bar>N * v\<bar>" by (simp add: abs_mult)
    with Nv_hi p(2) show ?thesis by linarith
  qed
  obtain b where b: "round64 (a1 + a2) = Num b"
    "near (eps + 2 * pow2 (- 53) + 2 * pow2 (- 53)) (2 * (N * v)) b"
    using near_round [OF s e2(4) e2(2) s_lo s_hi] by blast
  from b(2) have b4: "near (eps + 4 * pow2 (- 53)) (2 * (N * v)) b" by (simp add: add.assoc)
  have N0: "2 * N \<noteq> 0" using N(2) by simp
  have "near (eps + 4 * pow2 (- 53)) (1 / (2 * N) * (2 * (N * v))) (1 / (2 * N) * b)"
    by (rule near_scale [OF b4])
  moreover have "1 / (2 * N) * (2 * (N * v)) = v" using N(2) by simp
  ultimately have q: "near (eps + 4 * pow2 (- 53)) v (b / (2 * N))" by simp
  from vhi p have vhi': "\<bar>v\<bar> \<le> pow2 1022" by simp
  obtain w where w: "round64 (b / (2 * N)) = Num w"
    "near (eps + 4 * pow2 (- 53) + 2 * pow2 (- 53)) v w"
    using near_round [OF q e2(5) e2(3) lo vhi'] by blast
  from w(2) have w6: "near (eps + 6 * pow2 (- 53)) v w" by (simp add: add.assoc)
  have "avg n (Num x1) n (Num x2) (n + n) = Num w"
    using N0 by (simp add: avg_def N(1) T T [folded mult_2] a1(1) a2(1) b(1) w(1))
  then show ?thesis using w6 by (rule that)
qed

lemma avg_zero_mean:
  assumes "n \<noteq> 0" and "unat n < 2 ^ 63"
  shows "avg n (Num 0) n (Num 0) (n + n) = Num 0"
proof -
  obtain N where N: "of_size_t n = Num N" "1 \<le> N"
    using of_size_t_pos [OF assms(1)] by blast
  have T: "of_size_t (n + n) = Num (2 * N)" by (rule of_size_t_double [OF assms(2) N(1)])
  from N(2) show ?thesis by (simp add: avg_def N(1) T T [folded mult_2])
qed

text \<open>
  A mean merged with itself comes back within six parts in \<open>2 ^ 53\<close>, and within
  twelve when the merge is repeated with the first result on the left.
\<close>

lemma avg_self_close:
  assumes n: "n \<noteq> 0" "unat n < 2 ^ 63" and m: "mergeable_mean n x"
  shows "close_to x (avg n x n x (n + n))"
proof -
  note u = pow2_minus53_small
  from m obtain v where x: "x = Num v"
    and v: "v = 0 \<or> pow2 (- 1021) \<le> \<bar>v\<bar> \<and> real (unat n) * \<bar>v\<bar> \<le> pow2 1020"
    by (cases x) (simp_all add: mergeable_mean_def)
  show ?thesis
  proof (cases "v = 0")
    case True
    with avg_zero_mean [OF n] show ?thesis by (simp add: x close_to_def near_def)
  next
    case False
    with v have r: "pow2 (- 1021) \<le> \<bar>v\<bar>" "real (unat n) * \<bar>v\<bar> \<le> pow2 1020" by simp_all
    have z: "near 0 v v" by (rule near_refl) simp
    obtain w where w: "avg n (Num v) n (Num v) (n + n) = Num w"
      "near (0 + 6 * pow2 (- 53)) v w"
      using avg_near [OF n r z z] u by auto
    from w(2) have "near (pow2 (- 49)) v w" by (rule near_mono) (use u in linarith)
    with w(1) show ?thesis by (simp add: x close_to_def)
  qed
qed

lemma avg_twice_close:
  assumes n: "n \<noteq> 0" "unat n < 2 ^ 63" and m: "mergeable_mean n x"
  shows "close_to x (avg n (avg n x n x (n + n)) n x (n + n))"
proof -
  note u = pow2_minus53_small
  from m obtain v where x: "x = Num v"
    and v: "v = 0 \<or> pow2 (- 1021) \<le> \<bar>v\<bar> \<and> real (unat n) * \<bar>v\<bar> \<le> pow2 1020"
    by (cases x) (simp_all add: mergeable_mean_def)
  show ?thesis
  proof (cases "v = 0")
    case True
    with avg_zero_mean [OF n] show ?thesis by (simp add: x close_to_def near_def)
  next
    case False
    with v have r: "pow2 (- 1021) \<le> \<bar>v\<bar>" "real (unat n) * \<bar>v\<bar> \<le> pow2 1020" by simp_all
    have z: "near 0 v v" by (rule near_refl) simp
    obtain w1 where w1: "avg n (Num v) n (Num v) (n + n) = Num w1"
      "near (0 + 6 * pow2 (- 53)) v w1"
      using avg_near [OF n r z z] u by auto
    have e: "0 \<le> 6 * pow2 (- 53)" "6 * pow2 (- 53) \<le> pow2 (- 49)" using u by linarith+
    from w1(2) have n1: "near (6 * pow2 (- 53)) v w1" by simp
    have n2: "near (6 * pow2 (- 53)) v v" by (rule near_refl [OF e(1)])
    obtain w2 where w2: "avg n (Num w1) n (Num v) (n + n) = Num w2"
      "near (6 * pow2 (- 53) + 6 * pow2 (- 53)) v w2"
      using avg_near [OF n r n1 n2 e] by blast
    from w2(2) have "near (pow2 (- 49)) v w2" by (rule near_mono) (use u in linarith)
    with w1(1) w2(1) show ?thesis by (simp add: x close_to_def)
  qed
qed

subsection \<open>What the operator computes\<close>

text \<open>
  Each entry of \<open>atoms\<close> and \<open>uncertainty\<close> is merged once. The mean is the expression of
  the specification; in the root the operator multiplies from left to right,
  \<open>(n * sd) * sd\<close>, where \<open>spec_sd\<close> squares first, so the two agree up to the rounding
  of the products.
\<close>

lemma per_nuclide_merge_spec:
  assumes "operator_plus_eq A B = Inr R" and "j < length (atoms A)"
  shows "atoms R ! j =
           spec_mean (num_samples A) (atoms A ! j) (num_samples B) (atoms B ! j)"
    and "uncertainty R ! j =
           quad (num_samples A) (uncertainty A ! j) (num_samples B) (uncertainty B ! j)
                (num_samples A + num_samples B)"
proof -
  from assms(1) have "in_bounds A B"
    using operator_plus_eq_returns [of A B] by blast
  with assms(2) have j: "j < length (uncertainty A)" by (simp add: in_bounds_def)
  show "atoms R ! j =
           spec_mean (num_samples A) (atoms A ! j) (num_samples B) (atoms B ! j)"
    by (simp only: operator_plus_eq_atoms_nth [OF assms] avg_spec_mean)
  from assms(2) show "uncertainty R ! j =
           quad (num_samples A) (uncertainty A ! j) (num_samples B) (uncertainty B ! j)
                (num_samples A + num_samples B)"
    by (simp only: operator_plus_eq_uncertainty_nth [OF assms(1) j] if_True)
qed

text \<open>The merged atoms do not depend on the order of the operands.\<close>

lemma per_nuclide_mean_commute:
  assumes AB: "operator_plus_eq A B = Inr R" and BA: "operator_plus_eq B A = Inr R'"
  shows "atoms R = atoms R'"
proof (rule nth_equalityI)
  from AB have "in_bounds A B" using operator_plus_eq_returns [of A B] by blast
  moreover from BA have "in_bounds B A" using operator_plus_eq_returns [of B A] by blast
  ultimately have len: "length (atoms A) = length (atoms B)"
    by (simp add: in_bounds_def)
  with operator_plus_eq_fields(3) [OF AB] operator_plus_eq_fields(3) [OF BA]
  show "length (atoms R) = length (atoms R')" by simp
  fix j assume "j < length (atoms R)"
  with operator_plus_eq_fields(3) [OF AB] len
  have jA: "j < length (atoms A)" and jB: "j < length (atoms B)" by simp_all
  show "atoms R ! j = atoms R' ! j"
    by (simp only: operator_plus_eq_atoms_nth [OF AB jA] operator_plus_eq_atoms_nth [OF BA jB]
        avg_commute)
qed

text \<open>The volume is folded with the right operand's twice.\<close>

lemma merged_volume_twice:
  assumes "operator_plus_eq A B = Inr R"
  shows "volume R =
     (avg (num_samples A)
          (spec_mean (num_samples A) (fst (volume A)) (num_samples B) (fst (volume B)))
          (num_samples B) (fst (volume B)) (num_samples A + num_samples B),
      quad (num_samples A)
           (quad (num_samples A) (snd (volume A)) (num_samples B) (snd (volume B))
                 (num_samples A + num_samples B))
           (num_samples B) (snd (volume B)) (num_samples A + num_samples B))"
  by (simp only: operator_plus_eq_fields(5) [OF assms] volume_loop_volume avg_spec_mean)

text \<open>With no samples on either side every merged number is zero divided by zero.\<close>

lemma zero_samples_merge:
  assumes R: "operator_plus_eq A B = Inr R"
    and z: "num_samples A = 0" "num_samples B = 0"
  shows "volume R = (NaN, NaN)"
    and "j < length (atoms A) \<Longrightarrow> atoms R ! j = NaN"
    and "j < length (atoms A) \<Longrightarrow> uncertainty R ! j = NaN"
proof -
  note f = operator_plus_eq_fields [OF R]
  from R have ib: "in_bounds A B" using operator_plus_eq_returns [of A B] by blast
  show "volume R = (NaN, NaN)"
    by (simp add: f(5) volume_loop_volume z avg_zero quad_zero)
  show "atoms R ! j = NaN" if j: "j < length (atoms A)"
    by (simp add: operator_plus_eq_atoms_nth [OF R j] z avg_zero)
  show "uncertainty R ! j = NaN" if j: "j < length (atoms A)"
  proof -
    from ib j have "j < length (uncertainty A)" by (simp add: in_bounds_def)
    from operator_plus_eq_uncertainty_nth [OF R this] j show ?thesis
      by (simp add: z quad_zero)
  qed
qed

subsection \<open>The operator on the concrete batches\<close>

text \<open>The counts \<open>2 ^ 63\<close> and \<open>2 ^ 64\<close> are powers of two and are not rounded.\<close>

lemma round64_2_63 [simp]: "round64 9223372036854775808 = Num 9223372036854775808"
  using round64_dyadic [of 1 63 "2 ^ 63"] huge_gt by (simp add: pow2_numeral)

lemma round64_2_64 [simp]: "round64 18446744073709551616 = Num 18446744073709551616"
  using round64_dyadic [of 1 64 "2 ^ 64"] huge_gt by (simp add: pow2_numeral)

lemma operator_plus_eq_batch_A_B:
  "operator_plus_eq batch_A batch_B =
     Inr \<lparr>volume = (Num 5, Num 0), nuclides = [5], atoms = [Num 4], uncertainty = [Num 0],
          num_samples = 2\<rparr>"
  by (simp add: operator_plus_eq_unfold volume_loop_twice volume_body_def
      atoms_loop.simps [of 0] atoms_loop.simps [of "Suc 0"] atoms_body_def
      batch_A_def batch_B_def Let_def of_size_t_def)

lemma operator_plus_eq_batch_B_A:
  "operator_plus_eq batch_B batch_A =
     Inr \<lparr>volume = (Num 3, Num 0), nuclides = [5], atoms = [Num 4], uncertainty = [Num 0],
          num_samples = 2\<rparr>"
  by (simp add: operator_plus_eq_unfold volume_loop_twice volume_body_def
      atoms_loop.simps [of 0] atoms_loop.simps [of "Suc 0"] atoms_body_def
      batch_A_def batch_B_def Let_def of_size_t_def)

lemma operator_plus_eq_batch_C_D:
  "operator_plus_eq batch_C batch_D =
     Inr \<lparr>volume = (Num 4, Num (1 / 2)), nuclides = [5], atoms = [Num 4],
          uncertainty = [Num 1], num_samples = 2\<rparr>"
  by (simp add: operator_plus_eq_unfold volume_loop_twice volume_body_def
      atoms_loop.simps [of 0] atoms_loop.simps [of "Suc 0"] atoms_body_def
      batch_C_def batch_D_def Let_def of_size_t_def)

lemma operator_plus_eq_short_long:
  "operator_plus_eq batch_short batch_long =
     Inr \<lparr>volume = (Num 0, Num 0), nuclides = [5], atoms = [Num 2], uncertainty = [Num 0],
          num_samples = 2\<rparr>"
  by (simp add: operator_plus_eq_unfold volume_loop_twice volume_body_def
      atoms_loop.simps [of 0] atoms_loop.simps [of "Suc 0"] atoms_body_def
      batch_short_def batch_long_def Let_def of_size_t_def)

lemma operator_plus_eq_long_short:
  "operator_plus_eq batch_long batch_short = Inl OutOfBounds"
  by (simp add: operator_plus_eq_unfold volume_loop_twice volume_body_def
      atoms_loop.simps [of 0] atoms_loop.simps [of "Suc 0"] atoms_body_def
      batch_short_def batch_long_def Let_def of_size_t_def)

lemma operator_plus_eq_batch_huge:
  "operator_plus_eq batch_huge batch_huge =
     Inr \<lparr>volume = (PInf, NaN), nuclides = [], atoms = [], uncertainty = [],
          num_samples = 0\<rparr>"
  by (simp add: operator_plus_eq_unfold volume_loop_twice volume_body_def
      atoms_loop.simps [of 0] batch_huge_def Let_def of_size_t_def inf_of_sign_def)

lemma operator_plus_eq_batch_zero:
  "operator_plus_eq batch_zero batch_zero =
     Inr \<lparr>volume = (NaN, NaN), nuclides = [5], atoms = [NaN], uncertainty = [NaN],
          num_samples = 0\<rparr>"
  by (simp add: operator_plus_eq_unfold volume_loop_twice volume_body_def
      atoms_loop.simps [of 0] atoms_loop.simps [of "Suc 0"] atoms_body_def
      batch_zero_def Let_def inf_of_sign_def)

text \<open>
  Three times the binary64 number nearest to one tenth lies halfway between two binary64
  numbers and is rounded to the even one, upwards; a sixth of twice that is one unit in
  the last place above the number the merge began with.
\<close>

lemma round64_three_tenths:
  "round64 (10808639105689191 / 2 ^ 55) = Num (5404319552844596 / 2 ^ 54)"
  using round64_eval_small [of "- 2" "10808639105689191 / 2 ^ 55" 5404319552844596]
  by (simp add: pow2_neg_numeral pow2_minus1 pow2_numeral round_even_def)

lemma round64_three_tenths_up:
  "round64 (21617278211378385 / 2 ^ 56) = Num (5404319552844596 / 2 ^ 54)"
  using round64_eval_small [of "- 2" "21617278211378385 / 2 ^ 56" 5404319552844596]
  by (simp add: pow2_neg_numeral pow2_minus1 pow2_numeral round_even_def)

lemma round64_six_tenths:
  "round64 (5404319552844596 / 2 ^ 53) = Num (5404319552844596 / 2 ^ 53)"
  using round64_dyadic [of 5404319552844596 "- 53" "5404319552844596 / 2 ^ 53"] huge_gt
  by (simp add: pow2_neg_numeral)

lemma round64_sixth:
  "round64 (5404319552844596 / 2 ^ 53 / 6) = Num (7205759403792795 / 2 ^ 56)"
  using round64_eval_small [of "- 4" "5404319552844596 / 2 ^ 53 / 6" 7205759403792795]
  by (simp add: pow2_neg_numeral pow2_minus1 pow2_numeral round_even_def)

lemma avg_tenth:
  "avg 3 (Num (3602879701896397 / 2 ^ 55)) 3 (Num (3602879701896397 / 2 ^ 55)) 6 =
     Num (7205759403792795 / 2 ^ 56)"
proof -
  have n: "of_size_t 3 = Num 3" "of_size_t 6 = Num 6" by (simp_all add: of_size_t_def)
  have p: "3 * (3602879701896397 / 2 ^ 55) = (10808639105689191 / 2 ^ 55 :: real)" by simp
  have s: "5404319552844596 / 2 ^ 54 + 5404319552844596 / 2 ^ 54 =
           (5404319552844596 / 2 ^ 53 :: real)" by simp
  show ?thesis
    unfolding avg_def n dmul.simps p round64_three_tenths dadd.simps s round64_six_tenths
      ddiv.simps
    by (simp only: round64_sixth) simp
qed

lemma avg_tenth_again:
  "avg 3 (Num (7205759403792795 / 2 ^ 56)) 3 (Num (3602879701896397 / 2 ^ 55)) 6 =
     Num (7205759403792795 / 2 ^ 56)"
proof -
  have n: "of_size_t 3 = Num 3" "of_size_t 6 = Num 6" by (simp_all add: of_size_t_def)
  have p: "3 * (3602879701896397 / 2 ^ 55) = (10808639105689191 / 2 ^ 55 :: real)"
    "3 * (7205759403792795 / 2 ^ 56) = (21617278211378385 / 2 ^ 56 :: real)" by simp_all
  have s: "5404319552844596 / 2 ^ 54 + 5404319552844596 / 2 ^ 54 =
           (5404319552844596 / 2 ^ 53 :: real)" by simp
  show ?thesis
    unfolding avg_def n dmul.simps p round64_three_tenths round64_three_tenths_up
      dadd.simps s round64_six_tenths ddiv.simps
    by (simp only: round64_sixth) simp
qed

lemma operator_plus_eq_batch_tenth:
  "operator_plus_eq batch_tenth batch_tenth =
     Inr \<lparr>volume = (Num (7205759403792795 / 2 ^ 56), Num 0), nuclides = [], atoms = [],
          uncertainty = [], num_samples = 6\<rparr>"
proof -
  have q: "quad 3 (Num 0) 3 (Num 0) 6 = Num 0" by (simp add: quad_def of_size_t_def)
  have b: "fst (volume batch_tenth) = Num (3602879701896397 / 2 ^ 55)"
    "snd (volume batch_tenth) = Num 0" "num_samples batch_tenth = 3"
    by (simp_all add: batch_tenth_def)
  have "volume (volume_loop 0 6 batch_tenth batch_tenth) =
          (Num (7205759403792795 / 2 ^ 56), Num 0)"
    by (simp only: volume_loop_volume b avg_tenth avg_tenth_again q)
  moreover have "atoms (volume_loop 0 6 batch_tenth batch_tenth) = []"
    "uncertainty (volume_loop 0 6 batch_tenth batch_tenth) = []"
    "nuclides (volume_loop 0 6 batch_tenth batch_tenth) = []"
    by (simp_all add: batch_tenth_def)
  ultimately have v: "volume_loop 0 6 batch_tenth batch_tenth =
     \<lparr>volume = (Num (7205759403792795 / 2 ^ 56), Num 0), nuclides = [], atoms = [],
      uncertainty = [], num_samples = 3\<rparr>"
    by (intro Result.equality) (simp_all add: batch_tenth_def)
  have t: "num_samples batch_tenth + num_samples batch_tenth = 6"
    by (simp add: batch_tenth_def)
  show ?thesis
    unfolding operator_plus_eq_unfold t v by (simp add: atoms_loop.simps [of 0])
qed

subsection \<open>The divisors of the operator\<close>

text \<open>
  Every divisor is the converted total. When it is not zero the operator with observed
  divisors does what the operator does; when it is zero the first division stops it.
\<close>

lemma checked_div_nonzero: "y \<noteq> Num 0 \<Longrightarrow> checked_div x y = Inr (ddiv x y)"
  by (simp add: checked_div_def)

lemma checked_div_zero [simp]: "checked_div x (Num 0) = Inl ZeroDivisor"
  by (simp add: checked_div_def)

lemma volume_body_checked_nonzero:
  "of_size_t t \<noteq> Num 0 \<Longrightarrow> volume_body_checked t other this = Inr (volume_body t other this)"
  by (simp add: volume_body_checked_def volume_body_def checked_div_nonzero Let_def)

lemma volume_loop_checked_nonzero:
  "of_size_t t \<noteq> Num 0 \<Longrightarrow> volume_loop_checked i t other this = Inr (volume_loop i t other this)"
proof (induction i t other this rule: volume_loop.induct)
  case (1 i t other this)
  then show ?case
    by (simp add: volume_loop_checked.simps [of i] volume_loop.simps [of i]
        volume_body_checked_nonzero)
qed

lemma volume_loop_checked_zero:
  "of_size_t t = Num 0 \<Longrightarrow> volume_loop_checked 0 t other this = Inl ZeroDivisor"
  by (simp add: volume_loop_checked.simps [of 0] volume_size_def volume_body_checked_def)

lemma atoms_body_checked_nonzero:
  "of_size_t t \<noteq> Num 0 \<Longrightarrow>
   atoms_body_checked i t other this = map_sum Unchecked id (atoms_body i t other this)"
  by (simp add: atoms_body_checked_def atoms_body_def checked_div_nonzero Let_def)

lemma atoms_loop_checked_nonzero:
  "of_size_t t \<noteq> Num 0 \<Longrightarrow>
   atoms_loop_checked i t other this = map_sum Unchecked id (atoms_loop i t other this)"
proof (induction i t other this rule: atoms_loop.induct)
  case (1 i t other this)
  show ?case
  proof (cases "atoms_body i t other this")
    case (Inl e)
    with "1.prems" show ?thesis
      by (simp add: atoms_loop_checked.simps [of i] atoms_loop.simps [of i]
          atoms_body_checked_nonzero)
  next
    case (Inr this')
    with "1.prems" "1.IH" show ?thesis
      by (simp add: atoms_loop_checked.simps [of i] atoms_loop.simps [of i]
          atoms_body_checked_nonzero)
  qed
qed

lemma operator_plus_eq_checked_nonzero:
  assumes "num_samples this + num_samples other \<noteq> 0"
  shows "operator_plus_eq_checked this other = map_sum Unchecked id (operator_plus_eq this other)"
proof -
  from assms have "of_size_t (num_samples this + num_samples other) \<noteq> Num 0"
    by (simp add: of_size_t_eq_zero)
  then show ?thesis
    by (simp add: operator_plus_eq_checked_def operator_plus_eq_def Let_def
        volume_loop_checked_nonzero atoms_loop_checked_nonzero split: sum.splits)
qed

lemma operator_plus_eq_checked_zero:
  assumes "num_samples this + num_samples other = 0"
  shows "operator_plus_eq_checked this other = Inl ZeroDivisor"
  using assms
  by (simp add: operator_plus_eq_checked_def Let_def volume_loop_checked_zero)

text \<open>
  The \<^verbatim>\<open>size_t\<close> total is zero for two counts of zero and for two counts that add up to
  \<open>2 ^ 64\<close>, and for no others.
\<close>

lemma total_zero_iff:
  fixes n m :: size_t
  shows "n + m = 0 \<longleftrightarrow> unat n + unat m = 0 \<or> unat n + unat m = 2 ^ 64"
proof -
  have n: "unat n < 2 ^ 64" and m: "unat m < 2 ^ 64"
    using unsigned_less [of n] unsigned_less [of m] by simp_all
  have "n + m = 0 \<longleftrightarrow> unat (n + m) = 0" by (simp add: unat_eq_0)
  also have "unat (n + m) = (unat n + unat m) mod 2 ^ 64"
    by (simp add: unat_word_ariths)
  also have "(unat n + unat m) mod 2 ^ 64 = 0 \<longleftrightarrow>
             unat n + unat m = 0 \<or> unat n + unat m = 2 ^ 64"
  proof (cases "unat n + unat m < 2 ^ 64")
    case True
    then show ?thesis by simp
  next
    case False
    with n m have "(unat n + unat m) mod 2 ^ 64 = unat n + unat m - 2 ^ 64"
      by (simp add: mod_if)
    with False show ?thesis by auto
  qed
  finally show ?thesis .
qed

subsection \<open>The operator on objects in memory\<close>

lemma volume_body_at_frame:
  "(\<forall>p. p \<noteq> this \<longrightarrow> volume_body_at t other this h p = h p) \<and>
   nuclides (volume_body_at t other this h this) = nuclides (h this) \<and>
   atoms (volume_body_at t other this h this) = atoms (h this) \<and>
   uncertainty (volume_body_at t other this h this) = uncertainty (h this) \<and>
   num_samples (volume_body_at t other this h this) = num_samples (h this)"
  by (simp add: volume_body_at_def Let_def)

lemma volume_loop_at_twice:
  "volume_loop_at 0 t other this h =
     volume_body_at t other this (volume_body_at t other this h)"
  by (simp add: volume_loop_at.simps [of 0] volume_loop_at.simps [of "Suc 0"]
      volume_loop_at.simps [of "Suc (Suc 0)"] volume_size_def)

lemma volume_loop_at_frame:
  "(\<forall>p. p \<noteq> this \<longrightarrow> volume_loop_at 0 t other this h p = h p) \<and>
   nuclides (volume_loop_at 0 t other this h this) = nuclides (h this) \<and>
   atoms (volume_loop_at 0 t other this h this) = atoms (h this) \<and>
   uncertainty (volume_loop_at 0 t other this h this) = uncertainty (h this) \<and>
   num_samples (volume_loop_at 0 t other this h this) = num_samples (h this)"
  by (simp add: volume_loop_at_twice volume_body_at_frame)

lemma atoms_loop_at_frame:
  "atoms_loop_at i t other this h = Inr h' \<Longrightarrow>
     (\<forall>p. p \<noteq> this \<longrightarrow> h' p = h p) \<and>
     volume (h' this) = volume (h this) \<and> nuclides (h' this) = nuclides (h this) \<and>
     num_samples (h' this) = num_samples (h this) \<and>
     length (atoms (h' this)) = length (atoms (h this)) \<and>
     length (uncertainty (h' this)) = length (uncertainty (h this))"
proof (induction i t other this h rule: atoms_loop_at.induct)
  case (1 i t other this h)
  show ?case
  proof (cases "i < length (atoms (h this))")
    case False
    with "1.prems" show ?thesis by (simp add: atoms_loop_at.simps [of i])
  next
    case True
    with "1.prems" obtain h1 where b: "atoms_body_at i t other this h = Inr h1"
      and l: "atoms_loop_at (Suc i) t other this h1 = Inr h'"
      by (auto simp: atoms_loop_at.simps [of i] split: sum.splits)
    from "1.IH" [OF True b l] atoms_body_at_frame [OF b] show ?thesis
      by simp
  qed
qed

text \<open>
  On two distinct objects the operator in memory is the operator on values: it replaces
  the object at \<open>this\<close> by the merged Result.
\<close>

lemma volume_body_at_distinct:
  "this \<noteq> other \<Longrightarrow>
   volume_body_at t other this h = h(this := volume_body t (h other) (h this))"
  by (simp add: volume_body_at_def volume_body_def Let_def)

lemma atoms_body_at_distinct:
  "this \<noteq> other \<Longrightarrow>
   atoms_body_at i t other this h =
     (case atoms_body i t (h other) (h this) of
        Inl e \<Rightarrow> Inl e
      | Inr r \<Rightarrow> Inr (h(this := r)))"
  by (simp add: atoms_body_at_def atoms_body_def Let_def)

lemma atoms_loop_at_distinct:
  "this \<noteq> other \<Longrightarrow>
   atoms_loop_at i t other this h =
     (case atoms_loop i t (h other) (h this) of
        Inl e \<Rightarrow> Inl e
      | Inr r \<Rightarrow> Inr (h(this := r)))"
proof (induction i t other this h rule: atoms_loop_at.induct)
  case (1 i t other this h)
  show ?case
  proof (cases "i < length (atoms (h this))")
    case False
    then show ?thesis
      by (simp add: atoms_loop_at.simps [of i] atoms_loop.simps [of i])
  next
    case True
    show ?thesis
    proof (cases "atoms_body i t (h other) (h this)")
      case (Inl e)
      with True "1.prems" show ?thesis
        by (simp add: atoms_loop_at.simps [of i] atoms_loop.simps [of i]
            atoms_body_at_distinct)
    next
      case (Inr r)
      with "1.prems" have b: "atoms_body_at i t other this h = Inr (h(this := r))"
        by (simp add: atoms_body_at_distinct)
      have "atoms_loop_at (Suc i) t other this (h(this := r)) =
              (case atoms_loop (Suc i) t ((h(this := r)) other) ((h(this := r)) this) of
                 Inl e \<Rightarrow> Inl e
               | Inr r' \<Rightarrow> Inr (h(this := r, this := r')))"
        by (rule "1.IH" [OF True b "1.prems"])
      also have "\<dots> = (case atoms_loop (Suc i) t (h other) r of
                          Inl e \<Rightarrow> Inl e
                        | Inr r' \<Rightarrow> Inr (h(this := r')))"
        using "1.prems" by (simp split: sum.splits)
      finally have step: "atoms_loop_at (Suc i) t other this (h(this := r)) =
              (case atoms_loop (Suc i) t (h other) r of
                 Inl e \<Rightarrow> Inl e
               | Inr r' \<Rightarrow> Inr (h(this := r')))" .
      have "atoms_loop_at i t other this h =
              atoms_loop_at (Suc i) t other this (h(this := r))"
        using True b by (simp add: atoms_loop_at.simps [of i])
      moreover have "atoms_loop i t (h other) (h this) = atoms_loop (Suc i) t (h other) r"
        using True Inr by (simp add: atoms_loop.simps [of i])
      ultimately show ?thesis using step by simp
    qed
  qed
qed

lemma operator_plus_eq_at_distinct:
  assumes "this \<noteq> other"
  shows "operator_plus_eq_at this other h =
     (case operator_plus_eq (h this) (h other) of
        Inl e \<Rightarrow> Inl e
      | Inr R \<Rightarrow> Inr (h(this := R)))"
  using assms
  by (simp add: operator_plus_eq_at_def operator_plus_eq_def Let_def volume_loop_at_twice
      volume_loop_twice volume_body_at_distinct atoms_loop_at_distinct split: sum.splits)

lemma operator_plus_eq_at_two_batches:
  "operator_plus_eq_at 0 1 two_batches =
     Inr (two_batches(0 := \<lparr>volume = (Num 5, Num 0), nuclides = [5], atoms = [Num 4],
                            uncertainty = [Num 0], num_samples = 2\<rparr>))"
proof -
  have "two_batches 0 = batch_A" and "two_batches 1 = batch_B"
    by (simp_all add: two_batches_def)
  then show ?thesis
    by (simp add: operator_plus_eq_at_distinct operator_plus_eq_batch_A_B)
qed

subsection \<open>The estimator\<close>

text \<open>The negative powers of two met in the concrete runs are not rounded.\<close>

lemma round64_fractions [simp]:
  "round64 (1 / 4) = Num (1 / 4)" "round64 (1 / 16) = Num (1 / 16)"
  "round64 (1 / 32) = Num (1 / 32)" "round64 (1 / 128) = Num (1 / 128)"
  using round64_dyadic [of 1 "- 2" "1 / 4"] round64_dyadic [of 1 "- 4" "1 / 16"]
    round64_dyadic [of 1 "- 5" "1 / 32"] round64_dyadic [of 1 "- 7" "1 / 128"] huge_gt
  by (simp_all add: pow2_neg_numeral)

lemma sample_domain_no_hit:
  "list_all (\<lambda>p. domain_at p \<noteq> target) points \<Longrightarrow>
   sample_domain domain_at material_at target points acc = acc"
  by (induction points arbitrary: acc) simp_all

lemma bbox_volume_Num: "\<exists>v. bbox_volume lower_left upper_right = Num v"
  by (cases lower_left; cases upper_right) (simp add: bbox_volume_def)

lemma estimator_no_hit:
  assumes "0 < n"
  shows "estimator n (Num v) density propagate ([], []) =
     \<lparr>volume = (Num 0, Num 0), nuclides = [], atoms = [], uncertainty = [],
      num_samples = of_nat n\<rparr>"
  using assms by (simp add: estimator_def first_seen_def of_c_int_def dsub_def Let_def)

text \<open>The vectors of an estimate are aligned.\<close>

lemma estimator_inv: "Result_inv (estimator n box density propagate acc)"
  by (cases acc) (simp add: estimator_def Result_inv_def Let_def)

text \<open>
  Four points in the box from the origin to \<open>(2, 2, 2)\<close>, two of them in domain 1: the
  estimate is half the box, and the atoms are the volume times the density.
\<close>

lemma estimate_domain_half_box:
  "estimate_domain (0, 0, 0) (2, 2, 2) world_density no_propagation
     world_domain_at world_material_at 1 [0, 1, 2, 3] =
     \<lparr>volume = (Num 4, Num 2), nuclides = [5], atoms = [Num (1 / 32)], uncertainty = [Num 0],
      num_samples = 4\<rparr>"
proof -
  have s: "sqrt (1 / 16) = 1 / 4"
    using real_sqrt_abs [of "1 / 4"] by (simp add: power2_eq_square)
  have acc: "sample_domain world_domain_at world_material_at 1 [0, 1, 2, 3] ([], []) = ([3], [2])"
    by (simp add: world_domain_at_def world_material_at_def check_hit_def)
  show ?thesis
    unfolding estimate_domain_def acc
    by (simp add: estimator_def bbox_volume_def world_density_def no_propagation_def
        first_seen_def density_of_def dsum_def of_c_int_def dsub_def s)
qed

section \<open>The claims\<close>

text \<open>
  C1. For operands with a nonzero total the merged volume mean is the weighted average
  \<open>(n_A * mean_A + n_B * mean_B) / (n_A + n_B)\<close>. The operator does not compute it: the
  first loop runs its body once for each of the two entries of \<^verbatim>\<open>volume\<close>, and the body
  updates both entries each time, so the average is taken a second time with the result
  of the first in place of \<open>mean_A\<close> (\<open>merged_volume_twice\<close>). For two one-sample batches
  with means 2 and 6 the operator returns the mean 5; the weighted average is 4.
\<close>

theorem volume_mean_folded_twice:
  "operator_plus_eq batch_A batch_B =
     Inr \<lparr>volume = (Num 5, Num 0), nuclides = [5], atoms = [Num 4], uncertainty = [Num 0],
          num_samples = 2\<rparr> \<and>
   spec_mean (num_samples batch_A) (fst (volume batch_A))
             (num_samples batch_B) (fst (volume batch_B)) = Num 4"
proof -
  have "spec_mean (num_samples batch_A) (fst (volume batch_A))
             (num_samples batch_B) (fst (volume batch_B)) = Num 4"
    by (simp add: spec_mean_def batch_A_def batch_B_def of_size_t_def)
  with operator_plus_eq_batch_A_B show ?thesis by simp
qed

text \<open>
  C2. The merged volume standard deviation is
  \<open>sqrt (n_A * sd_A\<^sup>2 + n_B * sd_B\<^sup>2) / (n_A + n_B)\<close>, and the per-nuclide vectors are
  merged by the same rule and by the weighted mean. The per-nuclide part holds, the
  root's products being taken from left to right (\<open>per_nuclide_merge_spec\<close>); the
  volume part does not, for the reason of C1. For two
  one-sample batches with standard deviations 2 and 0, in the volume and in the one
  nuclide alike, the operator returns the uncertainty 1 for the nuclide, as the formula
  says, and the standard deviation 1/2 for the volume.
\<close>

theorem volume_sd_folded_twice:
  "operator_plus_eq batch_C batch_D =
     Inr \<lparr>volume = (Num 4, Num (1 / 2)), nuclides = [5], atoms = [Num 4],
          uncertainty = [Num 1], num_samples = 2\<rparr> \<and>
   spec_sd (num_samples batch_C) (snd (volume batch_C))
           (num_samples batch_D) (snd (volume batch_D)) = Num 1"
proof -
  have "spec_sd (num_samples batch_C) (snd (volume batch_C))
           (num_samples batch_D) (snd (volume batch_D)) = Num 1"
    by (simp add: spec_sd_def batch_C_def batch_D_def of_size_t_def)
  with operator_plus_eq_batch_C_D show ?thesis by simp
qed

text \<open>
  C3. Merging two Results sets \<^verbatim>\<open>num_samples\<close> to \<open>n_A + n_B\<close>. The sum is the
  \<^verbatim>\<open>size_t\<close> sum the operator computes; it is the sum of the two numbers whenever that
  is below \<open>2 ^ 64\<close>. The operator returns a Result exactly for operands that are
  \<open>in_bounds\<close> (\<open>operator_plus_eq_returns\<close>).
\<close>

theorem merged_num_samples:
  assumes "in_bounds A B"
  shows "\<exists>R. operator_plus_eq A B = Inr R \<and>
           num_samples R = num_samples A + num_samples B \<and>
           (unat (num_samples A) + unat (num_samples B) < 2 ^ 64 \<longrightarrow>
              unat (num_samples R) = unat (num_samples A) + unat (num_samples B))"
proof -
  from assms obtain R where R: "operator_plus_eq A B = Inr R"
    using operator_plus_eq_returns [of A B] by blast
  have n: "num_samples R = num_samples A + num_samples B"
    by (rule operator_plus_eq_fields(1) [OF R])
  have "unat (num_samples R) = unat (num_samples A) + unat (num_samples B)"
    if "unat (num_samples A) + unat (num_samples B) < 2 ^ 64"
  proof -
    from that have "unat (num_samples A) + unat (num_samples B) < 2 ^ LENGTH(64)" by simp
    then show ?thesis unfolding n by (simp only: unat_add_lem [THEN iffD1])
  qed
  with R n show ?thesis by blast
qed

theorem merged_num_samples_witness:
  "in_bounds batch_A batch_B \<and>
   (\<exists>R. operator_plus_eq batch_A batch_B = Inr R \<and> num_samples R = 2 \<and>
        unat (num_samples R) = 2)"
proof -
  have b: "in_bounds batch_A batch_B"
    by (simp add: in_bounds_def batch_A_def batch_B_def)
  from merged_num_samples [OF b] b show ?thesis
    by (auto simp: batch_A_def batch_B_def)
qed

text \<open>
  C4. The merge is commutative in the means: the volume mean and the atoms of
  \<open>A += B\<close> are those of \<open>B += A\<close>. For the atoms this holds
  (\<open>per_nuclide_mean_commute\<close>). For the volume mean it does not, for the reason of C1:
  the second pass weighs the right operand's mean again. The two one-sample batches with
  means 2 and 6 merge to the mean 5 in one order and to 3 in the other, the atoms being
  4 in both.
\<close>

theorem volume_mean_not_commutative:
  "operator_plus_eq batch_A batch_B =
     Inr \<lparr>volume = (Num 5, Num 0), nuclides = [5], atoms = [Num 4], uncertainty = [Num 0],
          num_samples = 2\<rparr> \<and>
   operator_plus_eq batch_B batch_A =
     Inr \<lparr>volume = (Num 3, Num 0), nuclides = [5], atoms = [Num 4], uncertainty = [Num 0],
          num_samples = 2\<rparr>"
  using operator_plus_eq_batch_A_B operator_plus_eq_batch_B_A by simp

text \<open>
  C5. Merging a Result of \<open>n > 0\<close> samples with a copy of itself keeps the volume mean,
  the atoms and the nuclides. As stated this fails, in two ways. For \<open>n = 2 ^ 63\<close> the
  total \<open>n + n\<close> is \<open>0\<close> in \<^verbatim>\<open>size_t\<close>, the sum \<open>2 ^ 63 * 1 + 2 ^ 63 * 1\<close> is divided
  by zero, and the mean 1 becomes an infinity. For \<open>n = 3\<close> and the mean
  \<open>3602879701896397 / 2 ^ 55\<close>, the binary64 number nearest to one tenth, the product
  \<open>3 * mean\<close> is rounded upwards, and the merged mean \<open>7205759403792795 / 2 ^ 56\<close> is
  one unit in the last place above the operand's.
\<close>

theorem self_merge_counterexample:
  "Result_inv batch_huge \<and> 0 < num_samples batch_huge \<and>
   fst (volume batch_huge) = Num 1 \<and>
   operator_plus_eq batch_huge batch_huge =
     Inr \<lparr>volume = (PInf, NaN), nuclides = [], atoms = [], uncertainty = [],
          num_samples = 0\<rparr> \<and>
   Result_inv batch_tenth \<and> 0 < num_samples batch_tenth \<and>
   fst (volume batch_tenth) = Num (3602879701896397 / 2 ^ 55) \<and>
   representable (3602879701896397 / 2 ^ 55) \<and>
   operator_plus_eq batch_tenth batch_tenth =
     Inr \<lparr>volume = (Num (7205759403792795 / 2 ^ 56), Num 0), nuclides = [], atoms = [],
          uncertainty = [], num_samples = 6\<rparr> \<and>
   Num (7205759403792795 / 2 ^ 56) \<noteq> Num (3602879701896397 / 2 ^ 55)"
proof -
  have "representable (3602879701896397 / 2 ^ 55)"
    unfolding representable_def
    using round64_dyadic [of 3602879701896397 "- 55" "3602879701896397 / 2 ^ 55"] huge_gt
    by (simp add: pow2_neg_numeral)
  moreover have "fst (volume batch_tenth) = Num (3602879701896397 / 2 ^ 55)"
    by (simp add: batch_tenth_def)
  moreover have "Result_inv batch_tenth" "0 < num_samples batch_tenth"
    by (simp_all add: batch_tenth_def Result_inv_def)
  moreover have "Result_inv batch_huge" "0 < num_samples batch_huge"
    "fst (volume batch_huge) = Num 1"
    by (simp_all add: batch_huge_def Result_inv_def)
  moreover have "Num (7205759403792795 / 2 ^ 56) \<noteq> Num (3602879701896397 / 2 ^ 55)"
    by simp
  ultimately show ?thesis
    using operator_plus_eq_batch_huge operator_plus_eq_batch_tenth by blast
qed

text \<open>
  C5, amended. Let \<open>0 < n < 2 ^ 63\<close>, let the \<open>uncertainty\<close> of the Result be no shorter
  than its \<open>atoms\<close> (as the invariant of the data model has it), and let the volume mean
  and every entry of \<open>atoms\<close> be zero or a number of magnitude between \<open>2 ^ - 1021\<close> and
  \<open>2 ^ 1020 / n\<close>. Then the operator returns a Result with the nuclides of the operand,
  whose volume mean and atoms are numbers within the relative distance \<open>2 ^ - 49\<close> of the
  operand's, every operation being rounded to the nearest binary64 number on its own.
\<close>

theorem self_merge_keeps_means_closely:
  assumes "in_bounds A A" and "num_samples A \<noteq> 0" and "unat (num_samples A) < 2 ^ 63"
    and "mergeable_mean (num_samples A) (fst (volume A))"
    and "list_all (mergeable_mean (num_samples A)) (atoms A)"
  shows "\<exists>R. operator_plus_eq A A = Inr R \<and>
           close_to (fst (volume A)) (fst (volume R)) \<and>
           list_all2 close_to (atoms A) (atoms R) \<and> nuclides R = nuclides A"
proof -
  from assms(1) obtain R where R: "operator_plus_eq A A = Inr R"
    using operator_plus_eq_returns [of A A] by blast
  note f = operator_plus_eq_fields [OF R]
  have "fst (volume R) =
          avg (num_samples A)
              (avg (num_samples A) (fst (volume A)) (num_samples A) (fst (volume A))
                   (num_samples A + num_samples A))
              (num_samples A) (fst (volume A)) (num_samples A + num_samples A)"
    by (simp only: f(5) volume_loop_volume fst_conv)
  with avg_twice_close [OF assms(2,3,4)]
  have v: "close_to (fst (volume A)) (fst (volume R))" by simp
  have a: "list_all2 close_to (atoms A) (atoms R)"
    unfolding list_all2_conv_all_nth
  proof (intro conjI allI impI)
    show "length (atoms A) = length (atoms R)" by (rule f(3) [symmetric])
  next
    fix j assume j: "j < length (atoms A)"
    with assms(5) have "mergeable_mean (num_samples A) (atoms A ! j)"
      by (simp add: list_all_length)
    from avg_self_close [OF assms(2,3) this]
    show "close_to (atoms A ! j) (atoms R ! j)"
      by (simp only: operator_plus_eq_atoms_nth [OF R j])
  qed
  from R v a f(2) show ?thesis by blast
qed

theorem self_merge_keeps_means_closely_witness:
  "in_bounds batch_A batch_A \<and> num_samples batch_A \<noteq> 0 \<and>
   unat (num_samples batch_A) < 2 ^ 63 \<and>
   mergeable_mean (num_samples batch_A) (fst (volume batch_A)) \<and>
   list_all (mergeable_mean (num_samples batch_A)) (atoms batch_A) \<and>
   (\<exists>R. operator_plus_eq batch_A batch_A = Inr R \<and> close_to (Num 2) (fst (volume R)) \<and>
        list_all2 close_to [Num 2] (atoms R) \<and> nuclides R = [5])"
proof -
  have m: "mergeable_mean 1 (Num 2)"
    using pow2_mono [of "- 1021" 1] pow2_mono [of 1 1020] by (simp add: mergeable_mean_def)
  have h: "in_bounds batch_A batch_A" "num_samples batch_A \<noteq> 0"
    "unat (num_samples batch_A) < 2 ^ 63"
    "mergeable_mean (num_samples batch_A) (fst (volume batch_A))"
    "list_all (mergeable_mean (num_samples batch_A)) (atoms batch_A)"
    using m by (simp_all add: in_bounds_def batch_A_def)
  from self_merge_keeps_means_closely [OF h] h show ?thesis
    by (simp add: batch_A_def)
qed

text \<open>
  C6. Operands whose nuclide vectors differ in shape make an \<^verbatim>\<open>Expects\<close> fail. They do
  not: the second \<^verbatim>\<open>Expects\<close> compares \<^verbatim>\<open>atoms.size()\<close> with itself, and no operands
  at all make the operator stop there (\<open>operator_plus_eq_error\<close>). A Result of one
  nuclide merged with one of two returns a merged Result of one nuclide.
\<close>

theorem mismatched_vectors_merged_silently:
  "length (atoms batch_short) \<noteq> length (atoms batch_long) \<and>
   operator_plus_eq batch_short batch_long =
     Inr \<lparr>volume = (Num 0, Num 0), nuclides = [5], atoms = [Num 2], uncertainty = [Num 0],
          num_samples = 2\<rparr>"
  using operator_plus_eq_short_long by (simp add: batch_short_def batch_long_def)

text \<open>
  C7. Every division of the operator is by the converted total. With no samples on
  either side the total is zero and the operator divides by it all the same: the volume
  and every merged entry of \<open>atoms\<close> and \<open>uncertainty\<close> are \<open>NaN\<close>, zero divided by zero.
  The second half, that \<open>n_A + n_B > 0\<close> keeps every divisor from zero, fails as stated:
  for \<open>n_A = n_B = 2 ^ 63\<close> the sum is \<open>2 ^ 64\<close>, the \<^verbatim>\<open>size_t\<close> total is \<open>0\<close>, and
  the first division of the operator has the divisor zero.
\<close>

theorem huge_total_zero_divisor:
  "num_samples batch_huge \<noteq> 0 \<and>
   0 < unat (num_samples batch_huge) + unat (num_samples batch_huge) \<and>
   of_size_t (num_samples batch_huge + num_samples batch_huge) = Num 0 \<and>
   operator_plus_eq_checked batch_huge batch_huge = Inl ZeroDivisor \<and>
   operator_plus_eq batch_huge batch_huge =
     Inr \<lparr>volume = (PInf, NaN), nuclides = [], atoms = [], uncertainty = [],
          num_samples = 0\<rparr>"
proof -
  have t: "num_samples batch_huge + num_samples batch_huge = 0"
    by (simp add: batch_huge_def)
  have "num_samples batch_huge \<noteq> 0"
    "0 < unat (num_samples batch_huge) + unat (num_samples batch_huge)"
    by (simp_all add: batch_huge_def)
  moreover from t have "of_size_t (num_samples batch_huge + num_samples batch_huge) = Num 0"
    by (simp only: of_size_t_0)
  moreover note operator_plus_eq_checked_zero [OF t] operator_plus_eq_batch_huge
  ultimately show ?thesis by blast
qed

text \<open>
  C7, amended. The divisor is the \<^verbatim>\<open>size_t\<close> total, and a division of the operator
  has a zero divisor exactly when that total is zero: for two counts of zero and for two
  counts that add up to \<open>2 ^ 64\<close>. With a nonzero total no division has a zero divisor,
  and the operator with its divisors observed does what the operator does. With no
  samples on either side the operator returns, for operands that are \<open>in_bounds\<close>, a
  Result whose volume and merged entries of \<open>atoms\<close> and \<open>uncertainty\<close> are \<open>NaN\<close>.
\<close>

theorem zero_divisor_iff_total_zero:
  "(operator_plus_eq_checked A B = Inl ZeroDivisor \<longleftrightarrow> num_samples A + num_samples B = 0) \<and>
   (num_samples A + num_samples B = 0 \<longleftrightarrow>
      unat (num_samples A) + unat (num_samples B) = 0 \<or>
      unat (num_samples A) + unat (num_samples B) = 2 ^ 64) \<and>
   (num_samples A + num_samples B \<noteq> 0 \<longrightarrow>
      of_size_t (num_samples A + num_samples B) \<noteq> Num 0 \<and>
      operator_plus_eq_checked A B = map_sum Unchecked id (operator_plus_eq A B)) \<and>
   (num_samples A = 0 \<and> num_samples B = 0 \<and> in_bounds A B \<longrightarrow>
      (\<exists>R. operator_plus_eq A B = Inr R \<and> volume R = (NaN, NaN) \<and>
           (\<forall>j<length (atoms A). atoms R ! j = NaN \<and> uncertainty R ! j = NaN)))"
proof (intro conjI impI)
  show "operator_plus_eq_checked A B = Inl ZeroDivisor \<longleftrightarrow> num_samples A + num_samples B = 0"
  proof
    assume z: "operator_plus_eq_checked A B = Inl ZeroDivisor"
    show "num_samples A + num_samples B = 0"
    proof (rule ccontr)
      assume "num_samples A + num_samples B \<noteq> 0"
      from operator_plus_eq_checked_nonzero [OF this] z show False
        by (cases "operator_plus_eq A B") simp_all
    qed
  next
    assume "num_samples A + num_samples B = 0"
    then show "operator_plus_eq_checked A B = Inl ZeroDivisor"
      by (rule operator_plus_eq_checked_zero)
  qed
next
  show "num_samples A + num_samples B = 0 \<longleftrightarrow>
      unat (num_samples A) + unat (num_samples B) = 0 \<or>
      unat (num_samples A) + unat (num_samples B) = 2 ^ 64"
    by (rule total_zero_iff)
next
  assume "num_samples A + num_samples B \<noteq> 0"
  then show "of_size_t (num_samples A + num_samples B) \<noteq> Num 0"
    by (simp add: of_size_t_eq_zero)
next
  assume "num_samples A + num_samples B \<noteq> 0"
  then show "operator_plus_eq_checked A B = map_sum Unchecked id (operator_plus_eq A B)"
    by (rule operator_plus_eq_checked_nonzero)
next
  assume z: "num_samples A = 0 \<and> num_samples B = 0 \<and> in_bounds A B"
  then obtain R where R: "operator_plus_eq A B = Inr R"
    using operator_plus_eq_returns [of A B] by blast
  from z zero_samples_merge [OF R]
  have "volume R = (NaN, NaN)"
    and "\<forall>j<length (atoms A). atoms R ! j = NaN \<and> uncertainty R ! j = NaN"
    by simp_all
  with R show "\<exists>R. operator_plus_eq A B = Inr R \<and> volume R = (NaN, NaN) \<and>
           (\<forall>j<length (atoms A). atoms R ! j = NaN \<and> uncertainty R ! j = NaN)"
    by blast
qed

theorem zero_divisor_iff_total_zero_witness:
  "num_samples batch_zero = 0 \<and> in_bounds batch_zero batch_zero \<and>
   operator_plus_eq_checked batch_zero batch_zero = Inl ZeroDivisor \<and>
   (\<exists>R. operator_plus_eq batch_zero batch_zero = Inr R \<and> volume R = (NaN, NaN) \<and>
        atoms R ! 0 = NaN \<and> uncertainty R ! 0 = NaN) \<and>
   num_samples batch_A + num_samples batch_B \<noteq> 0 \<and>
   of_size_t (num_samples batch_A + num_samples batch_B) \<noteq> Num 0 \<and>
   operator_plus_eq_checked batch_A batch_B =
     Inr \<lparr>volume = (Num 5, Num 0), nuclides = [5], atoms = [Num 4], uncertainty = [Num 0],
          num_samples = 2\<rparr>"
proof -
  have z: "num_samples batch_zero = 0" "in_bounds batch_zero batch_zero"
    "0 < length (atoms batch_zero)"
    by (simp_all add: in_bounds_def batch_zero_def)
  have n: "num_samples batch_A + num_samples batch_B \<noteq> 0"
    by (simp add: batch_A_def batch_B_def)
  from zero_divisor_iff_total_zero [of batch_zero batch_zero] z
  have 1: "operator_plus_eq_checked batch_zero batch_zero = Inl ZeroDivisor"
    and 2: "\<exists>R. operator_plus_eq batch_zero batch_zero = Inr R \<and> volume R = (NaN, NaN) \<and>
        atoms R ! 0 = NaN \<and> uncertainty R ! 0 = NaN"
    by auto
  from zero_divisor_iff_total_zero [of batch_A batch_B] n
  have 3: "of_size_t (num_samples batch_A + num_samples batch_B) \<noteq> Num 0"
    and 4: "operator_plus_eq_checked batch_A batch_B =
              map_sum Unchecked id (operator_plus_eq batch_A batch_B)"
    by simp_all
  from 4 have 5: "operator_plus_eq_checked batch_A batch_B =
     Inr \<lparr>volume = (Num 5, Num 0), nuclides = [5], atoms = [Num 4], uncertainty = [Num 0],
          num_samples = 2\<rparr>"
    by (simp add: operator_plus_eq_batch_A_B)
  from z(1,2) n 1 2 3 5 show ?thesis by blast
qed

text \<open>
  C8. A domain that none of the \<open>n > 0\<close> points drawn lies in gets a Result, not an
  error: its volume is \<open>(0, 0)\<close> and its three vectors are empty. The estimator is the one
  written from the specification.
\<close>

theorem zero_hits_zero_result:
  assumes "points \<noteq> []" and "list_all (\<lambda>p. domain_at p \<noteq> target) points"
  shows "estimate_domain lower_left upper_right density propagate
           domain_at material_at target points =
     \<lparr>volume = (Num 0, Num 0), nuclides = [], atoms = [], uncertainty = [],
      num_samples = of_nat (length points)\<rparr>"
proof -
  obtain v where v: "bbox_volume lower_left upper_right = Num v"
    using bbox_volume_Num by blast
  from assms(1) have n: "0 < length points" by simp
  show ?thesis
    unfolding estimate_domain_def sample_domain_no_hit [OF assms(2)] v
    by (rule estimator_no_hit [OF n])
qed

theorem zero_hits_zero_result_witness:
  "[0, 1, 2, 3 :: nat] \<noteq> [] \<and> list_all (\<lambda>p. world_domain_at p \<noteq> 4) [0, 1, 2, 3] \<and>
   estimate_domain (0, 0, 0) (2, 2, 2) world_density no_propagation
     world_domain_at world_material_at 4 [0, 1, 2, 3] =
     \<lparr>volume = (Num 0, Num 0), nuclides = [], atoms = [], uncertainty = [],
      num_samples = 4\<rparr>"
proof -
  have h: "[0, 1, 2, 3 :: nat] \<noteq> []" "list_all (\<lambda>p. world_domain_at p \<noteq> 4) [0, 1, 2, 3]"
    by (simp_all add: world_domain_at_def)
  from zero_hits_zero_result [OF h, of "(0, 0, 0)" "(2, 2, 2)" world_density no_propagation
      world_material_at] h
  show ?thesis by simp
qed

text \<open>
  C9. The merge operator preserves the invariant of the data model: when both operands
  have aligned vectors, of the same length in both, the operator returns a Result with
  aligned vectors of that length. The struct does not enforce the invariant by itself;
  the Results of the estimator have it (\<open>estimator_inv\<close>).
\<close>

theorem merge_preserves_invariant:
  assumes "Result_inv A" and "Result_inv B" and "length (nuclides A) = length (nuclides B)"
  shows "\<exists>R. operator_plus_eq A B = Inr R \<and> Result_inv R \<and>
           length (nuclides R) = length (nuclides A) \<and>
           length (atoms R) = length (atoms A) \<and>
           length (uncertainty R) = length (uncertainty A)"
proof -
  from assms have "in_bounds A B" by (rule in_bounds_inv)
  then obtain R where R: "operator_plus_eq A B = Inr R"
    using operator_plus_eq_returns [of A B] by blast
  note f = operator_plus_eq_fields [OF R]
  from assms(1) f(2,3,4) have "Result_inv R" by (simp add: Result_inv_def)
  with R f(2,3,4) show ?thesis by simp
qed

theorem merge_preserves_invariant_witness:
  "Result_inv batch_A \<and> Result_inv batch_B \<and>
   length (nuclides batch_A) = length (nuclides batch_B) \<and>
   (\<exists>R. operator_plus_eq batch_A batch_B = Inr R \<and> Result_inv R \<and>
        length (nuclides R) = 1 \<and> length (atoms R) = 1 \<and> length (uncertainty R) = 1)"
  using merge_preserves_invariant [of batch_A batch_B]
  by (simp add: Result_inv_def batch_A_def batch_B_def)

text \<open>
  C10. The operator writes to the object at \<open>this\<close> alone, and there it leaves the
  nuclides and the lengths of \<open>atoms\<close> and \<open>uncertainty\<close> as they were: every other
  object in memory, the right operand among them when it is another object, is
  unchanged. This is over the operator on objects in memory, where the two operands may
  also be one object.
\<close>

theorem operator_plus_eq_frame:
  assumes "operator_plus_eq_at this other h = Inr h'"
  shows "(\<forall>p. p \<noteq> this \<longrightarrow> h' p = h p) \<and>
         (other \<noteq> this \<longrightarrow> h' other = h other) \<and>
         nuclides (h' this) = nuclides (h this) \<and>
         length (atoms (h' this)) = length (atoms (h this)) \<and>
         length (uncertainty (h' this)) = length (uncertainty (h this))"
proof -
  let ?t = "num_samples (h this) + num_samples (h other)"
  let ?h1 = "volume_loop_at 0 ?t other this h"
  from assms obtain h2 where l: "atoms_loop_at 0 ?t other this ?h1 = Inr h2"
    and h': "h' = h2(this := (h2 this)\<lparr>num_samples := ?t\<rparr>)"
    by (auto simp: operator_plus_eq_at_def Let_def split: sum.splits)
  from atoms_loop_at_frame [OF l] volume_loop_at_frame [of this ?t other h]
  show ?thesis by (simp add: h')
qed

theorem operator_plus_eq_frame_witness:
  "\<exists>h'. operator_plus_eq_at 0 1 two_batches = Inr h' \<and>
        h' 1 = batch_B \<and> h' 2 = batch_B \<and> nuclides (h' 0) = [5] \<and>
        length (atoms (h' 0)) = 1 \<and> length (uncertainty (h' 0)) = 1"
proof -
  obtain h' where e: "operator_plus_eq_at 0 1 two_batches = Inr h'"
    using operator_plus_eq_at_two_batches by blast
  note f = operator_plus_eq_frame [OF e]
  from f have "h' 1 = two_batches 1" and "h' 2 = two_batches 2"
    and "nuclides (h' 0) = nuclides (two_batches 0)"
    and "length (atoms (h' 0)) = length (atoms (two_batches 0))"
    and "length (uncertainty (h' 0)) = length (uncertainty (two_batches 0))"
    by simp_all
  with e show ?thesis
    by (simp add: two_batches_def batch_A_def)
qed

end
